theory Spec2Isabelle
  imports Complex_Main "HOL-Library.Sublist" "HOL-Library.Monad_Syntax"
begin

section \<open>Strings\<close>

text \<open>
  A JavaScript string is modelled as a \<open>string\<close>: a list of characters, one per code unit,
  restricted to the 8-bit range.  \<open>length\<close> is \<open>.length\<close>.  In that range \<open>toLowerCase\<close>
  moves the letters A-Z and the accented capitals \<open>0xC0\<close> to \<open>0xDE\<close> (but not the
  multiplication sign \<open>0xD7\<close>) up by \<open>0x20\<close>, and the white space of \<open>trim\<close> and of the
  regular expression \<open>\s\<close> is the tab, line feed, vertical tab, form feed, carriage
  return, space and no-break space.
\<close>

definition toLowerChar :: "char \<Rightarrow> char" where
  "toLowerChar c =
     (let n = (of_char c :: nat)
      in if (65 \<le> n \<and> n \<le> 90) \<or> (192 \<le> n \<and> n \<le> 222 \<and> n \<noteq> 215)
         then char_of (n + 32)
         else c)"

definition toLowerCase :: "string \<Rightarrow> string" where
  "toLowerCase s = map toLowerChar s"

definition isWhitespace :: "char \<Rightarrow> bool" where
  "isWhitespace c =
     (c \<in> set [CHR 0x09, CHR 0x0A, CHR 0x0B, CHR 0x0C, CHR 0x0D, CHR 0x20, CHR 0xA0])"

definition trim :: "string \<Rightarrow> string" where
  "trim s = rev (dropWhile isWhitespace (rev (dropWhile isWhitespace s)))"

text \<open>
  \<open>s.split(/\s+/)\<close>: the pieces between the maximal runs of white space.  A run at the
  start or at the end leaves an empty piece there, and the empty string has the one
  piece \<open>''''\<close>.
\<close>

function splitWhitespace :: "string \<Rightarrow> string list" where
  "splitWhitespace s =
     (let tok = takeWhile (\<lambda>c. \<not> isWhitespace c) s;
          rest = dropWhile (\<lambda>c. \<not> isWhitespace c) s
      in if rest = [] then [tok] else tok # splitWhitespace (dropWhile isWhitespace rest))"
  by pat_completeness auto

lemma dropWhile_ws_shorter:
  assumes "dropWhile (\<lambda>c. \<not> isWhitespace c) s \<noteq> []"
  shows "length (dropWhile isWhitespace (dropWhile (\<lambda>c. \<not> isWhitespace c) s)) < length s"
proof -
  let ?rest = "dropWhile (\<lambda>c. \<not> isWhitespace c) s"
  from assms obtain c cs where rest: "?rest = c # cs"
    by (cases ?rest) auto
  have "isWhitespace c"
    using hd_dropWhile [OF assms] rest by simp
  then have "length (dropWhile isWhitespace ?rest) \<le> length cs"
    using rest by (simp add: length_dropWhile_le)
  moreover have "length ?rest \<le> length s"
    by (rule length_dropWhile_le)
  ultimately show ?thesis
    using rest by simp
qed

termination splitWhitespace
  by (relation "measure length") (auto intro: dropWhile_ws_shorter)

declare splitWhitespace.simps [simp del]

text \<open>\<open>s.startsWith(p)\<close> and \<open>s.includes(p)\<close>.\<close>

fun startsWith :: "string \<Rightarrow> string \<Rightarrow> bool" where
  "startsWith s [] = True"
| "startsWith [] (p # ps) = False"
| "startsWith (c # cs) (p # ps) = (c = p \<and> startsWith cs ps)"

fun includesStr :: "string \<Rightarrow> string \<Rightarrow> bool" where
  "includesStr [] p = (p = [])"
| "includesStr (c # cs) p = (startsWith (c # cs) p \<or> includesStr cs p)"

text \<open>\<open>s.charAt(i)\<close>: the one-character string at index \<open>i\<close>, empty outside the string.\<close>

definition charAt :: "string \<Rightarrow> nat \<Rightarrow> string" where
  "charAt s i = (if i < length s then [s ! i] else [])"

section \<open>Numbers\<close>

text \<open>
  A JavaScript \<open>number\<close> is an IEEE-754 double, modelled as the real it denotes.  An
  operation of the code is the exact operation on the reals followed by \<open>roundDouble\<close>,
  the rounding of IEEE-754 to the nearest double with ties to the even significand:
  a number in the binade \<open>2 ^ e \<le> \<bar>x\<bar> < 2 ^ (e + 1)\<close> is rounded to a multiple of
  \<open>2 ^ (e - 52)\<close>, and below the least normal exponent \<open>- 1022\<close> the spacing stays that of
  the subnormal numbers.  Counts, lengths, indices and the scores of the word-level
  passes are whole numbers far below \<open>2 ^ 53\<close>; the arithmetic of doubles is exact on
  them and they are written without rounding.  The dot product and the sums of squares
  of the cosine similarity are whole numbers too, at most the product of the numbers
  of words of the two strings; they are written as naturals, which is the arithmetic
  of doubles as long as they stay below \<open>2 ^ 53\<close>, that is for all strings of fewer
  than \<open>2 ^ 26\<close> words.  No value of the engine is large enough to overflow.
\<close>

definition roundHalfEven :: "real \<Rightarrow> int" where
  "roundHalfEven x =
     (let f = \<lfloor>x\<rfloor>; d = x - of_int f
      in if d < 1 / 2 then f
         else if 1 / 2 < d then f + 1
         else if even f then f else f + 1)"

definition exponentOf :: "real \<Rightarrow> int" where
  "exponentOf x = max \<lfloor>log 2 \<bar>x\<bar>\<rfloor> (- 1022)"

definition ulpOf :: "real \<Rightarrow> real" where
  "ulpOf x = 2 powr of_int (exponentOf x - 52)"

definition roundDouble :: "real \<Rightarrow> real" where
  "roundDouble x = (if x = 0 then 0 else of_int (roundHalfEven (x / ulpOf x)) * ulpOf x)"

section \<open>Cosine similarity\<close>

text \<open>
  \<open>new Set(xs)\<close> keeps the first occurrence of every element, in insertion order; the
  model is the list that \<open>forEach\<close> walks.
\<close>

definition newSet :: "'a list \<Rightarrow> 'a list" where
  "newSet xs = foldl (\<lambda>acc x. if x \<in> set acc then acc else acc @ [x]) [] xs"

definition allWords :: "string \<Rightarrow> string \<Rightarrow> string list" where
  "allWords str1 str2 =
     newSet (splitWhitespace (toLowerCase str1) @ splitWhitespace (toLowerCase str2))"

text \<open>The two frequency vectors, one entry per word of \<open>allWords\<close>.\<close>

definition vector1 :: "string \<Rightarrow> string \<Rightarrow> nat list" where
  "vector1 str1 str2 =
     map (\<lambda>word. length (filter (\<lambda>w. w = word) (splitWhitespace (toLowerCase str1))))
       (allWords str1 str2)"

definition vector2 :: "string \<Rightarrow> string \<Rightarrow> nat list" where
  "vector2 str1 str2 =
     map (\<lambda>word. length (filter (\<lambda>w. w = word) (splitWhitespace (toLowerCase str2))))
       (allWords str1 str2)"

text \<open>
  \<open>v1.reduce((sum, val, i) => sum + val * v2[i], 0)\<close>.  The entries are counts, so the sums
  are whole numbers and exact; the reads \<open>v2[i]\<close> are inside \<open>v2\<close> because both vectors have one entry per
  word of \<open>allWords\<close> (\<open>length_vector2\<close> below).
\<close>

definition dotProduct :: "nat list \<Rightarrow> nat list \<Rightarrow> nat" where
  "dotProduct v1 v2 =
     foldl (\<lambda>sum (val, i). sum + val * (v2 ! i)) 0 (zip v1 [0..<length v1])"

definition sumSquares :: "nat list \<Rightarrow> nat" where
  "sumSquares v = foldl (\<lambda>sum val. sum + val * val) 0 v"

definition magnitude :: "nat list \<Rightarrow> real" where
  "magnitude v = roundDouble (sqrt (real (sumSquares v)))"

definition cosineSimilarity :: "string \<Rightarrow> string \<Rightarrow> real" where
  "cosineSimilarity str1 str2 =
     (let v1 = vector1 str1 str2;
          v2 = vector2 str1 str2;
          magnitude1 = magnitude v1;
          magnitude2 = magnitude v2
      in if magnitude1 = 0 \<or> magnitude2 = 0 then 0
         else roundDouble (real (dotProduct v1 v2) / roundDouble (magnitude1 * magnitude2)))"


section \<open>Edit distance\<close>

text \<open>
  A loop whose body may fail: the body runs on each element in turn, from the state the
  previous run left, and the first failure ends the loop.
\<close>

primrec forEachM :: "('s \<Rightarrow> 'a \<Rightarrow> 's option) \<Rightarrow> 's \<Rightarrow> 'a list \<Rightarrow> 's option" where
  "forEachM f s [] = Some s"
| "forEachM f s (x # xs) = (case f s x of None \<Rightarrow> None | Some s' \<Rightarrow> forEachM f s' xs)"

text \<open>
  The matrix is an array of rows that grow as they are written.  A write \<open>a[i] = v\<close>
  inside the array overwrites, a write at its end appends; a write beyond the end
  would leave holes and is \<open>None\<close>.  A read \<open>matrix[i][j]\<close> of a row that is not there
  throws, and of a cell that is not there is \<open>undefined\<close>, which makes the distance
  \<open>NaN\<close>: both are \<open>None\<close>.
\<close>

type_synonym matrix = "nat list list"

definition writeAt :: "'a list \<Rightarrow> nat \<Rightarrow> 'a \<Rightarrow> 'a list option" where
  "writeAt xs i v =
     (if i < length xs then Some (xs[i := v])
      else if i = length xs then Some (xs @ [v])
      else None)"

definition writeCell :: "matrix \<Rightarrow> nat \<Rightarrow> nat \<Rightarrow> nat \<Rightarrow> matrix option" where
  "writeCell m i j v =
     (if i < length m
      then (case writeAt (m ! i) j v of None \<Rightarrow> None | Some row \<Rightarrow> Some (m[i := row]))
      else None)"

definition readCell :: "matrix \<Rightarrow> nat \<Rightarrow> nat \<Rightarrow> nat option" where
  "readCell m i j = (if i < length m \<and> j < length (m ! i) then Some (m ! i ! j) else None)"

text \<open>The body of the inner loop: the value of cell \<open>(i, j)\<close>, then the write.\<close>

definition cellValue :: "string \<Rightarrow> string \<Rightarrow> matrix \<Rightarrow> nat \<Rightarrow> nat \<Rightarrow> nat option" where
  "cellValue str1 str2 m i j =
     (if charAt str2 (i - 1) = charAt str1 (j - 1) then readCell m (i - 1) (j - 1)
      else do {
        a \<leftarrow> readCell m (i - 1) (j - 1);
        b \<leftarrow> readCell m i (j - 1);
        c \<leftarrow> readCell m (i - 1) j;
        Some (min (a + 1) (min (b + 1) (c + 1)))
      })"

definition fillCell :: "string \<Rightarrow> string \<Rightarrow> nat \<Rightarrow> matrix \<Rightarrow> nat \<Rightarrow> matrix option" where
  "fillCell str1 str2 i m j = do {
     v \<leftarrow> cellValue str1 str2 m i j;
     writeCell m i j v
   }"

definition fillRow :: "string \<Rightarrow> string \<Rightarrow> matrix \<Rightarrow> nat \<Rightarrow> matrix option" where
  "fillRow str1 str2 m i = forEachM (fillCell str1 str2 i) m [1..<Suc (length str1)]"

definition levenshteinDistance :: "string \<Rightarrow> string \<Rightarrow> nat option" where
  "levenshteinDistance str1 str2 = do {
     m0 \<leftarrow> forEachM (\<lambda>m i. writeAt m i [i]) [] [0..<Suc (length str2)];
     m1 \<leftarrow> forEachM (\<lambda>m j. writeCell m 0 j j) m0 [0..<Suc (length str1)];
     m2 \<leftarrow> forEachM (fillRow str1 str2) m1 [1..<Suc (length str2)];
     readCell m2 (length str2) (length str1)
   }"

section \<open>The knowledge base and the candidates\<close>

text \<open>
  The module \<open>data/emojiDatabase\<close> that holds \<open>emojiDatabase\<close> and \<open>emojiKeywordIndex\<close>
  is outside this development, so both are parameters of the functions that read them.  The
  database is the array of its records.  The index is a \<open>Map\<close> from keyword to the
  symbols under it: an association list in the order \<open>forEach\<close> walks it, each entry with
  the list of its symbols in iteration order; \<open>has\<close> and \<open>get\<close> are \<open>map_of\<close>.
\<close>

record EmojiData =
  emoji :: string
  keywords' :: "string list"
  category :: string

type_synonym keywordIndex = "(string \<times> string list) list"

datatype MatchType = Exact | Prefix | Semantic | Fuzzy

record EmojiMatch =
  emoji :: string
  score :: real
  matchType :: MatchType

text \<open>
  The state of a query: the array \<open>matches\<close> and the set \<open>seenEmojis\<close>.  Every pass
  claims a symbol the same way: if it is not in \<open>seenEmojis\<close>, push a candidate and add
  the symbol to the set.
\<close>

type_synonym claims = "EmojiMatch list \<times> string set"

definition claim :: "real \<Rightarrow> MatchType \<Rightarrow> claims \<Rightarrow> string \<Rightarrow> claims" where
  "claim sc mt st e =
     (case st of (matches, seenEmojis) \<Rightarrow>
        if e \<notin> seenEmojis
        then (matches @ [\<lparr>emoji = e, score = sc, matchType = mt\<rparr>], insert e seenEmojis)
        else (matches, seenEmojis))"

definition claimAll :: "real \<Rightarrow> MatchType \<Rightarrow> claims \<Rightarrow> string list \<Rightarrow> claims" where
  "claimAll sc mt st emojis = foldl (claim sc mt) st emojis"

text \<open>
  \<open>matches.sort((a, b) => b.score - a.score)\<close>: a stable sort, highest score first.
  \<open>xs.slice(0, endIndex)\<close>: a negative \<open>endIndex\<close> counts from the end of the array.
\<close>

definition sortByScore :: "EmojiMatch list \<Rightarrow> EmojiMatch list" where
  "sortByScore matches = sort_key (\<lambda>m. - score m) matches"

definition slice0 :: "'a list \<Rightarrow> int \<Rightarrow> 'a list" where
  "slice0 xs endIndex =
     (let len = int (length xs);
          final = (if endIndex < 0 then max (len + endIndex) 0 else min endIndex len)
      in take (nat final) xs)"

section \<open>Word-level matching\<close>

definition exactPass :: "keywordIndex \<Rightarrow> string \<Rightarrow> claims \<Rightarrow> claims" where
  "exactPass idx normalizedWord st =
     (case map_of idx normalizedWord of
        Some emojis \<Rightarrow> claimAll 100 Exact st emojis
      | None \<Rightarrow> st)"

definition prefixStep :: "string \<Rightarrow> claims \<Rightarrow> string \<times> string list \<Rightarrow> claims" where
  "prefixStep normalizedWord st entry =
     (case entry of (keyword, emojis) \<Rightarrow>
        if startsWith keyword normalizedWord \<and> keyword \<noteq> normalizedWord
        then claimAll (90 - (real (length keyword) - real (length normalizedWord)) * 2)
               Prefix st emojis
        else st)"

definition fuzzyStep :: "string \<Rightarrow> claims \<Rightarrow> string \<times> string list \<Rightarrow> claims option" where
  "fuzzyStep normalizedWord st entry =
     (case entry of (keyword, emojis) \<Rightarrow>
        if \<bar>int (length keyword) - int (length normalizedWord)\<bar> \<le> 2
        then (case levenshteinDistance normalizedWord keyword of
                None \<Rightarrow> None
              | Some distance \<Rightarrow>
                  Some (if distance \<le> 2
                        then claimAll (80 - real distance * 10) Fuzzy st emojis
                        else st))
        else Some st)"

definition semanticStep :: "string \<Rightarrow> claims \<Rightarrow> string \<times> string list \<Rightarrow> claims" where
  "semanticStep normalizedWord st entry =
     (case entry of (keyword, emojis) \<Rightarrow>
        if includesStr keyword normalizedWord \<and> keyword \<noteq> normalizedWord
        then claimAll 70 Semantic st emojis
        else st)"

definition fuzzyPass :: "keywordIndex \<Rightarrow> string \<Rightarrow> int \<Rightarrow> claims \<Rightarrow> claims option" where
  "fuzzyPass idx normalizedWord maxResults st =
     (if int (length (fst st)) < maxResults
      then forEachM (fuzzyStep normalizedWord) st idx
      else Some st)"

definition semanticPass :: "keywordIndex \<Rightarrow> string \<Rightarrow> int \<Rightarrow> claims \<Rightarrow> claims" where
  "semanticPass idx normalizedWord maxResults st =
     (if int (length (fst st)) < maxResults \<and> 3 \<le> length normalizedWord
      then foldl (semanticStep normalizedWord) st idx
      else st)"

text \<open>The array \<open>matches\<close> as it stands when it is sorted.\<close>

definition wordMatches :: "keywordIndex \<Rightarrow> string \<Rightarrow> int \<Rightarrow> EmojiMatch list option" where
  "wordMatches idx word maxResults =
     (let normalizedWord = trim (toLowerCase word);
          st1 = exactPass idx normalizedWord ([], {});
          st2 = foldl (prefixStep normalizedWord) st1 idx
      in case fuzzyPass idx normalizedWord maxResults st2 of
           None \<Rightarrow> None
         | Some st3 \<Rightarrow> Some (fst (semanticPass idx normalizedWord maxResults st3)))"

definition predictEmojisForWord :: "keywordIndex \<Rightarrow> string \<Rightarrow> int \<Rightarrow> string list option" where
  "predictEmojisForWord idx word maxResults =
     (if word = [] \<or> length word < 2 then Some []
      else (case wordMatches idx word maxResults of
              None \<Rightarrow> None
            | Some matches \<Rightarrow>
                Some (map EmojiMatch.emoji (slice0 (sortByScore matches) maxResults))))"

section \<open>Sentence-level matching\<close>

definition wordStep :: "keywordIndex \<Rightarrow> claims \<Rightarrow> string \<Rightarrow> claims option" where
  "wordStep idx st word =
     (case predictEmojisForWord idx word 3 of
        None \<Rightarrow> None
      | Some wordEmojis \<Rightarrow> Some (claimAll 90 Exact st wordEmojis))"

text \<open>
  The body of the loop over a record's keywords, on the pair of \<open>score\<close> and
  \<open>matchedKeywords\<close>.  The literal \<open>0.3\<close> of the code is the double nearest to 3/10.
\<close>

definition keywordStep :: "string \<Rightarrow> real \<times> nat \<Rightarrow> string \<Rightarrow> real \<times> nat" where
  "keywordStep normalizedSentence acc keyword =
     (case acc of (score', matchedKeywords) \<Rightarrow>
        let keywordLower = toLowerCase keyword
        in if includesStr normalizedSentence keywordLower
           then (roundDouble (score' + 80), matchedKeywords + 1)
           else let similarity = cosineSimilarity normalizedSentence keywordLower
                in if similarity > roundDouble (3 / 10)
                   then (roundDouble (score' + roundDouble (similarity * 60)),
                         matchedKeywords + 1)
                   else (score', matchedKeywords))"

definition recordStep :: "string \<Rightarrow> claims \<Rightarrow> EmojiData \<Rightarrow> claims" where
  "recordStep normalizedSentence st data =
     (case foldl (keywordStep normalizedSentence) (0, 0) (keywords' data) of
        (score', matchedKeywords) \<Rightarrow>
          (case st of (matches, seenEmojis) \<Rightarrow>
             if matchedKeywords > 0 \<and> EmojiData.emoji data \<notin> seenEmojis
             then (matches @ [\<lparr>emoji = EmojiData.emoji data,
                               score = roundDouble (score' / real matchedKeywords),
                               matchType = Semantic\<rparr>],
                   insert (EmojiData.emoji data) seenEmojis)
             else (matches, seenEmojis)))"

definition sentenceMatches :: "EmojiData list \<Rightarrow> keywordIndex \<Rightarrow> string \<Rightarrow> EmojiMatch list option" where
  "sentenceMatches db idx sentence =
     (let normalizedSentence = trim (toLowerCase sentence);
          words = splitWhitespace normalizedSentence
      in case forEachM (wordStep idx) ([], {}) words of
           None \<Rightarrow> None
         | Some st1 \<Rightarrow> Some (fst (foldl (recordStep normalizedSentence) st1 db)))"

definition predictEmojisForSentence ::
    "EmojiData list \<Rightarrow> keywordIndex \<Rightarrow> string \<Rightarrow> int \<Rightarrow> string list option" where
  "predictEmojisForSentence db idx sentence maxResults =
     (if sentence = [] \<or> length (trim sentence) = 0 then Some []
      else (case sentenceMatches db idx sentence of
              None \<Rightarrow> None
            | Some matches \<Rightarrow>
                Some (map EmojiMatch.emoji (slice0 (sortByScore matches) maxResults))))"

section \<open>Category and popularity accessors\<close>

definition getEmojisByCategory :: "EmojiData list \<Rightarrow> string \<Rightarrow> int \<Rightarrow> string list" where
  "getEmojisByCategory db cat limit =
     map EmojiData.emoji (slice0 (filter (\<lambda>data. category data = cat) db) limit)"

text \<open>
  The twenty literals of \<open>getPopularEmojis\<close>, each as the list of its code units.  They
  lie outside the 8-bit range of the text that the engine matches, so they are given
  by number.
\<close>

definition getPopularEmojis :: "nat list list" where
  "getPopularEmojis =
     [[0x011F, 0x0178, 0x02DC, 0x20AC],
      [0x011F, 0x0178, 0x02DC, 0x201A],
      [0x011F, 0x0178, 0x00A5, 0x00B0],
      [0x011F, 0x0178, 0x02DC],
      [0x011F, 0x0178, 0x00A4, 0x00A9],
      [0x011F, 0x0178, 0x02DC],
      [0x011F, 0x0178, 0x00A5, 0x00B3],
      [0x011F, 0x0178, 0x02DC, 0x00AD],
      [0x011F, 0x0178, 0x02DC, 0x00A4],
      [0x011F, 0x0178, 0x00A5, 0x00BA],
      [0x011F, 0x0178, 0x2018],
      [0x011F, 0x0178, 0x2018],
      [0x011F, 0x0178, 0x2122],
      [0x011F, 0x0178, 0x2019, 0x00AA],
      [0x00E2, 0x0153, 0x00A8],
      [0x011F, 0x0178, 0x2030],
      [0x011F, 0x0178, 0x201D, 0x00A5],
      [0x00E2, 0x00A4, 0x00EF, 0x00B8],
      [0x011F, 0x0178, 0x2019, 0x00AF],
      [0x00E2, 0x0153, 0x2026]]"

section \<open>The mathematical edit distance\<close>

text \<open>
  One edit inserts, deletes or replaces a single character anywhere in the string; the
  edit distance of two strings is the least number of edits that turn the first into
  the second.
\<close>

inductive edit1 :: "string \<Rightarrow> string \<Rightarrow> bool" where
  insertion: "edit1 (xs @ ys) (xs @ c # ys)"
| deletion: "edit1 (xs @ c # ys) (xs @ ys)"
| substitution: "edit1 (xs @ c # ys) (xs @ d # ys)"

definition editDistance :: "string \<Rightarrow> string \<Rightarrow> nat" where
  "editDistance a b = (LEAST n. (edit1 ^^ n) a b)"

text \<open>
  The same distance by recursion on the two strings, which is what the matrix of
  \<open>levenshteinDistance\<close> tabulates for the prefixes.
\<close>

fun lev :: "string \<Rightarrow> string \<Rightarrow> nat" where
  "lev [] ys = length ys"
| "lev (x # xs) [] = Suc (length xs)"
| "lev (x # xs) (y # ys) =
     (if x = y then lev xs ys
      else Suc (min (lev xs ys) (min (lev (x # xs) ys) (lev xs (y # ys)))))"

text \<open>The cell of row i and column j holds the distance of the reversed prefixes.\<close>

definition cellOf :: "string \<Rightarrow> string \<Rightarrow> nat \<Rightarrow> nat \<Rightarrow> nat" where
  "cellOf str1 str2 i j = lev (rev (take i str2)) (rev (take j str1))"

text \<open>The matrix when the loops stand at row i and column j.\<close>

definition matrixAt :: "string \<Rightarrow> string \<Rightarrow> nat \<Rightarrow> nat \<Rightarrow> matrix" where
  "matrixAt str1 str2 i j =
     map (\<lambda>r. map (cellOf str1 str2 r)
                [0..<(if r < i then Suc (length str1) else if r = i then j else 1)])
       [0..<Suc (length str2)]"

section \<open>Invariants of a query and notions of the specification\<close>

text \<open>
  What every pass keeps: \<open>seenEmojis\<close> holds exactly the symbols of \<open>matches\<close>, and no
  symbol has two candidates.
\<close>

definition wellClaimed :: "claims \<Rightarrow> bool" where
  "wellClaimed st =
     (snd st = set (map EmojiMatch.emoji (fst st)) \<and> distinct (map EmojiMatch.emoji (fst st)))"



text \<open>How often a word occurs among the words of a string.\<close>

definition wordCount :: "string \<Rightarrow> string \<Rightarrow> nat" where
  "wordCount str word = length (filter (\<lambda>w. w = word) (splitWhitespace (toLowerCase str)))"

text \<open>
  The bag-of-words cosine similarity as the specification words it: both strings are
  split on white space, the vocabulary is the union of their words, each string has
  its vector of word frequencies over the vocabulary, and the similarity is the dot
  product over the product of the two norms, or 0 when a norm is zero, computed in
  floating point.
\<close>

definition specCosine :: "string \<Rightarrow> string \<Rightarrow> real" where
  "specCosine s k =
     (let ws = splitWhitespace s;
          wk = splitWhitespace k;
          vocabulary = set ws \<union> set wk;
          dot = (\<Sum>w \<in> vocabulary. count_list ws w * count_list wk w);
          norm1 = roundDouble (sqrt (real (\<Sum>w \<in> vocabulary. count_list ws w * count_list ws w)));
          norm2 = roundDouble (sqrt (real (\<Sum>w \<in> vocabulary. count_list wk w * count_list wk w)))
      in if norm1 = 0 \<or> norm2 = 0 then 0
         else roundDouble (real dot / roundDouble (norm1 * norm2)))"

text \<open>
  The scoring of a record as the specification words it.  A keyword is matched when it
  occurs in the normalized sentence or, failing that, when its similarity with the
  sentence exceeds 0.3; it contributes 80 in the first case and the similarity times
  60 in the second.  The contributions are added to a running sum in the order of the
  keywords.
\<close>

definition matchedKeywords :: "string \<Rightarrow> string list \<Rightarrow> string list" where
  "matchedKeywords ns kws =
     filter (\<lambda>k. sublist (toLowerCase k) ns \<or> 3 / 10 < specCosine ns (toLowerCase k)) kws"

definition contribution :: "string \<Rightarrow> string \<Rightarrow> real" where
  "contribution ns k =
     (if sublist (toLowerCase k) ns then 80
      else roundDouble (specCosine ns (toLowerCase k) * 60))"

definition contributionSum :: "string \<Rightarrow> string list \<Rightarrow> real" where
  "contributionSum ns kws =
     foldl (\<lambda>sum c. roundDouble (sum + c)) 0 (map (contribution ns) (matchedKeywords ns kws))"

text \<open>The fuzzy pass on one keyword as the specification words it.\<close>

definition fuzzySpecStep :: "string \<Rightarrow> claims \<Rightarrow> string \<times> string list \<Rightarrow> claims" where
  "fuzzySpecStep w st entry =
     (case entry of (keyword, emojis) \<Rightarrow>
        if \<bar>int (length keyword) - int (length w)\<bar> \<le> 2 \<and> editDistance w keyword \<le> 2
        then claimAll (80 - 10 * real (editDistance w keyword)) Fuzzy st emojis
        else st)"

section \<open>Properties of the string functions\<close>

lemma splitWhitespace_not_Nil: "splitWhitespace s \<noteq> []"
  by (subst splitWhitespace.simps) (simp add: Let_def)

lemma startsWith_prefix: "startsWith s p = prefix p s"
  by (induction s p rule: startsWith.induct) auto

lemma includesStr_sublist: "includesStr s p = sublist p s"
  by (induction s) (auto simp: startsWith_prefix sublist_Cons_right)


section \<open>The recursive distance is the edit distance\<close>

lemma lev_Nil2 [simp]: "lev xs [] = length xs"
  by (cases xs) simp_all

lemma lev_sym: "lev xs ys = lev ys xs"
  by (induction xs ys rule: lev.induct) (simp_all add: min.commute min.left_commute)

lemma lev_same [simp]: "lev xs xs = 0"
  by (induction xs) simp_all

lemma lev_head: "lev (x # xs) ys \<le> Suc (lev xs ys) \<and> lev xs ys \<le> Suc (lev (x # xs) ys)"
proof (induction "length xs + length ys" arbitrary: xs ys x rule: less_induct)
  case less
  show ?case
  proof (cases ys)
    case Nil
    then show ?thesis by simp
  next
    case (Cons y ys')
    have swap: "lev (y # ys') xs \<le> Suc (lev ys' xs) \<and> lev ys' xs \<le> Suc (lev (y # ys') xs)"
      using less [of ys' xs y] Cons by simp
    have smaller: "lev xs ys' \<le> Suc (lev (x # xs) ys')"
      using less [of xs ys' x] Cons by simp
    have a': "lev xs (y # ys') \<le> Suc (lev xs ys')"
      using swap by (simp add: lev_sym)
    have b': "lev xs ys' \<le> Suc (lev xs (y # ys'))"
      using swap by (simp add: lev_sym)
    show ?thesis
    proof (cases "x = y")
      case True
      then show ?thesis using Cons a' b' by simp
    next
      case False
      then show ?thesis using Cons a' smaller by auto
    qed
  qed
qed

lemma lev_head2: "lev xs (y # ys) \<le> Suc (lev xs ys) \<and> lev xs ys \<le> Suc (lev xs (y # ys))"
  using lev_head [of y ys xs] by (simp add: lev_sym)

lemma lev_subst_head: "lev (c # xs) ys \<le> Suc (lev (d # xs) ys)"
proof (induction ys)
  case Nil
  then show ?case by simp
next
  case (Cons y ys)
  have l: "lev (c # xs) (y # ys) \<le> Suc (lev xs ys)"
    by simp
  have a: "lev (c # xs) (y # ys) \<le> Suc (lev xs (y # ys))"
    using lev_head by blast
  have b: "lev (c # xs) (y # ys) \<le> Suc (lev (c # xs) ys)"
    using lev_head2 by blast
  show ?case
  proof (cases "d = y")
    case True
    then show ?thesis using l by simp
  next
    case False
    then show ?thesis using l a b Cons by (simp del: lev.simps(3) add: lev.simps(3) [of d xs y ys])
  qed
qed

lemma lev_context:
  assumes "\<And>b. lev a b \<le> Suc (lev a' b)"
  shows "lev (c # a) b \<le> Suc (lev (c # a') b)"
proof (induction b)
  case Nil
  then show ?case using assms [of "[]"] by simp
next
  case (Cons y b)
  show ?case
  proof (cases "c = y")
    case True
    then show ?thesis using assms [of b] by simp
  next
    case False
    then show ?thesis using assms [of b] assms [of "y # b"] Cons by simp
  qed
qed

lemma lev_prefix_context:
  assumes "\<And>b. lev a b \<le> Suc (lev a' b)"
  shows "lev (xs @ a) b \<le> Suc (lev (xs @ a') b)"
  using assms by (induction xs arbitrary: b) (simp_all add: lev_context)

lemma edit1_lev: "edit1 a a' \<Longrightarrow> lev a b \<le> Suc (lev a' b)"
proof (induction arbitrary: b rule: edit1.induct)
  case (insertion xs ys c)
  show ?case by (rule lev_prefix_context) (use lev_head in blast)
next
  case (deletion xs c ys)
  show ?case by (rule lev_prefix_context) (use lev_head in blast)
next
  case (substitution xs c ys d)
  show ?case by (rule lev_prefix_context) (rule lev_subst_head)
qed

lemma edits_lev: "(edit1 ^^ n) a b \<Longrightarrow> lev a b \<le> n"
proof (induction n arbitrary: a)
  case 0
  then show ?case by simp
next
  case (Suc n)
  then obtain a' where "edit1 a a'" "(edit1 ^^ n) a' b"
    by (meson relpowp_Suc_D2)
  then show ?case using Suc.IH [of a'] edit1_lev [of a a' b] by simp
qed

lemma edit1_Cons: "edit1 a b \<Longrightarrow> edit1 (c # a) (c # b)"
proof (induction rule: edit1.induct)
  case (insertion xs ys d)
  show ?case using edit1.insertion [of "c # xs" ys d] by simp
next
  case (deletion xs d ys)
  show ?case using edit1.deletion [of "c # xs" d ys] by simp
next
  case (substitution xs d ys e)
  show ?case using edit1.substitution [of "c # xs" d ys e] by simp
qed

lemma edits_Cons: "(edit1 ^^ n) a b \<Longrightarrow> (edit1 ^^ n) (c # a) (c # b)"
proof (induction n arbitrary: b)
  case 0
  then show ?case by simp
next
  case (Suc n)
  then obtain m where "(edit1 ^^ n) a m" "edit1 m b" by auto
  then show ?case using Suc.IH [of m] edit1_Cons [of m b c] by auto
qed

lemma edit1_ins_head: "edit1 ys (c # ys)"
  using edit1.insertion [of "[]" ys c] by simp

lemma edit1_del_head: "edit1 (c # ys) ys"
  using edit1.deletion [of "[]" c ys] by simp

lemma edit1_sub_head: "edit1 (c # ys) (d # ys)"
  using edit1.substitution [of "[]" c ys d] by simp

lemma lev_edits: "(edit1 ^^ lev a b) a b"
proof (induction a b rule: lev.induct)
  case (1 ys)
  show ?case
  proof (induction ys)
    case Nil
    then show ?case by simp
  next
    case (Cons y ys)
    then show ?case using edit1_ins_head [of ys y] by auto
  qed
next
  case (2 x xs)
  have "(edit1 ^^ length xs) xs []" for xs
  proof (induction xs)
    case Nil
    then show ?case by simp
  next
    case (Cons z zs)
    have "(edit1 ^^ Suc (length zs)) (z # zs) []"
      using edit1_del_head [of z zs] Cons by (blast intro: relpowp_Suc_I2)
    then show ?case by simp
  qed
  then have "(edit1 ^^ Suc (length xs)) (x # xs) []"
    using edit1_del_head [of x xs] by (blast intro: relpowp_Suc_I2)
  then show ?case by simp
next
  case (3 x xs y ys)
  show ?case
  proof (cases "x = y")
    case True
    then show ?thesis using 3 by (simp add: edits_Cons)
  next
    case False
    let ?m = "min (lev xs ys) (min (lev (x # xs) ys) (lev xs (y # ys)))"
    have eq: "lev (x # xs) (y # ys) = Suc ?m"
      using False by simp
    consider "?m = lev xs ys" | "?m = lev (x # xs) ys" | "?m = lev xs (y # ys)"
      by linarith
    then have "(edit1 ^^ Suc ?m) (x # xs) (y # ys)"
    proof cases
      case 1
      have "(edit1 ^^ ?m) (y # xs) (y # ys)"
        using 3(2) [OF False] 1 by (simp add: edits_Cons)
      then show ?thesis
        using edit1_sub_head [of x xs y] by (blast intro: relpowp_Suc_I2)
    next
      case 2
      have "(edit1 ^^ ?m) (x # xs) ys"
        using 3(3) [OF False] 2 by simp
      then show ?thesis
        using edit1_ins_head [of ys y] by (blast intro: relpowp_Suc_I)
    next
      case 3
      have "(edit1 ^^ ?m) xs (y # ys)"
        using "3.IH"(4) [OF False] 3 by simp
      then show ?thesis
        using edit1_del_head [of x xs] by (blast intro: relpowp_Suc_I2)
    qed
    then show ?thesis using eq by simp
  qed
qed

lemma lev_editDistance: "lev a b = editDistance a b"
  unfolding editDistance_def
  by (rule Least_equality [symmetric]) (auto intro: lev_edits edits_lev)

lemma edit1_rev: "edit1 a b \<Longrightarrow> edit1 (rev a) (rev b)"
proof (induction rule: edit1.induct)
  case (insertion xs ys c)
  show ?case using edit1.insertion [of "rev ys" "rev xs" c] by simp
next
  case (deletion xs c ys)
  show ?case using edit1.deletion [of "rev ys" c "rev xs"] by simp
next
  case (substitution xs c ys d)
  show ?case using edit1.substitution [of "rev ys" c "rev xs" d] by simp
qed

lemma edits_rev: "(edit1 ^^ n) a b \<Longrightarrow> (edit1 ^^ n) (rev a) (rev b)"
proof (induction n arbitrary: b)
  case 0
  then show ?case by simp
next
  case (Suc n)
  then obtain m where "(edit1 ^^ n) a m" "edit1 m b" by auto
  then show ?case using Suc.IH [of m] edit1_rev [of m b] by auto
qed

lemma lev_rev: "lev (rev a) (rev b) = lev a b"
proof (rule antisym)
  show "lev (rev a) (rev b) \<le> lev a b"
    by (rule edits_lev) (rule edits_rev, rule lev_edits)
  have "(edit1 ^^ lev (rev a) (rev b)) (rev (rev a)) (rev (rev b))"
    by (rule edits_rev) (rule lev_edits)
  then show "lev a b \<le> lev (rev a) (rev b)"
    by (simp add: edits_lev)
qed

section \<open>The matrix computes the recursive distance\<close>

lemma forEachM_upt:
  assumes step: "\<And>k. a \<le> k \<Longrightarrow> k < b \<Longrightarrow> f (S k) k = Some (S (Suc k))"
      and le: "a \<le> b"
  shows "forEachM f (S a) [a..<b] = Some (S b)"
  using step le
proof (induction "b - a" arbitrary: a)
  case 0
  then show ?case by simp
next
  case (Suc d)
  then have lt: "a < b" by simp
  have "f (S a) a = Some (S (Suc a))"
    using Suc.prems(1) [of a] lt by simp
  moreover have "forEachM f (S (Suc a)) [Suc a..<b] = Some (S b)"
    using Suc.hyps(1) [of "Suc a"] Suc.hyps(2) Suc.prems(1) lt by simp
  ultimately show ?case
    using lt by (simp add: upt_conv_Cons)
qed

lemma length_matrixAt [simp]: "length (matrixAt str1 str2 i j) = Suc (length str2)"
  by (simp add: matrixAt_def)

lemma nth_matrixAt:
  "r \<le> length str2 \<Longrightarrow>
   matrixAt str1 str2 i j ! r =
     map (cellOf str1 str2 r)
       [0..<(if r < i then Suc (length str1) else if r = i then j else 1)]"
  unfolding matrixAt_def by (simp add: nth_map_upt del: upt_Suc)

lemma cellOf_0_left: "j \<le> length str1 \<Longrightarrow> cellOf str1 str2 0 j = j"
  by (simp add: cellOf_def)

lemma cellOf_0_right: "i \<le> length str2 \<Longrightarrow> cellOf str1 str2 i 0 = i"
  by (simp add: cellOf_def)

lemma cellOf_Suc:
  assumes "i < length str2" "j < length str1"
  shows "cellOf str1 str2 (Suc i) (Suc j) =
           (if str2 ! i = str1 ! j then cellOf str1 str2 i j
            else Suc (min (cellOf str1 str2 i j)
                   (min (cellOf str1 str2 (Suc i) j) (cellOf str1 str2 i (Suc j)))))"
  using assms by (simp add: cellOf_def take_Suc_conv_app_nth)

lemma readCell_matrixAt:
  assumes "r \<le> length str2"
      and "c < (if r < i then Suc (length str1) else if r = i then j else 1)"
  shows "readCell (matrixAt str1 str2 i j) r c = Some (cellOf str1 str2 r c)"
  using assms by (simp add: readCell_def nth_matrixAt del: upt_Suc)

lemma row0: "map (cellOf str1 str2 0) [0..<Suc (length str1)] = [0..<Suc (length str1)]"
  by (rule map_idI) (auto simp: cellOf_def)

lemma col0: "r \<le> length str2 \<Longrightarrow> map (cellOf str1 str2 r) [0..<Suc 0] = [r]"
  by (simp add: cellOf_def)

lemma initRows:
  "forEachM (\<lambda>m i. writeAt m i [i]) [] [0..<Suc n] = Some (map (\<lambda>i. [i]) [0..<Suc n])"
proof -
  have "forEachM (\<lambda>m i. writeAt m i [i]) (map (\<lambda>i. [i]) [0..<0]) [0..<Suc n]
        = Some (map (\<lambda>i. [i]) [0..<Suc n])"
    by (rule forEachM_upt [where S = "\<lambda>k. map (\<lambda>i. [i]) [0..<k]"]) (simp_all add: writeAt_def)
  then show ?thesis by simp
qed

lemma initCols:
  "forEachM (\<lambda>m j. writeCell m 0 j j) (map (\<lambda>i. [i]) [0..<Suc (length str2)])
     [0..<Suc (length str1)] = Some (matrixAt str1 str2 (Suc 0) (Suc 0))"
proof -
  let ?m0 = "map (\<lambda>i. [i]) [0..<Suc (length str2)]"
  let ?S = "\<lambda>k. ?m0[0 := [0..<max k 1]]"
  have step: "writeCell (?S k) 0 k k = Some (?S (Suc k))" for k
  proof (cases k)
    case 0
    have "[0..<Suc 0] = [0]" by simp
    then show ?thesis using 0 by (simp add: writeCell_def writeAt_def del: upt_Suc)
  next
    case (Suc k')
    have "[0..<Suc (Suc k')] = [0..<Suc k'] @ [Suc k']" by simp
    then show ?thesis using Suc by (simp add: writeCell_def writeAt_def max_def del: upt_Suc)
  qed
  have "forEachM (\<lambda>m j. writeCell m 0 j j) (?S 0) [0..<Suc (length str1)]
        = Some (?S (Suc (length str1)))"
    by (rule forEachM_upt [where S = ?S]) (simp_all only: step le0)
  moreover have "?S 0 = ?m0"
    by (simp add: upt_conv_Cons del: upt_Suc)
  moreover have "?S (Suc (length str1)) = matrixAt str1 str2 (Suc 0) (Suc 0)"
  proof (rule nth_equalityI)
    show "length (?S (Suc (length str1))) = length (matrixAt str1 str2 (Suc 0) (Suc 0))"
      by simp
  next
    fix r
    assume "r < length (?S (Suc (length str1)))"
    then have r: "r \<le> length str2" by simp
    show "?S (Suc (length str1)) ! r = matrixAt str1 str2 (Suc 0) (Suc 0) ! r"
    proof (cases r)
      case 0
      then show ?thesis
        by (simp add: nth_matrixAt max_def row0 del: upt_Suc)
    next
      case (Suc r')
      then show ?thesis using r
        by (simp add: nth_matrixAt col0 nth_map_upt del: upt_Suc)
    qed
  qed
  ultimately show ?thesis by simp
qed


lemma cellValue_matrixAt:
  assumes "i < length str2" "j < length str1"
  shows "cellValue str1 str2 (matrixAt str1 str2 (Suc i) (Suc j)) (Suc i) (Suc j)
         = Some (cellOf str1 str2 (Suc i) (Suc j))"
proof -
  let ?M = "matrixAt str1 str2 (Suc i) (Suc j)"
  have a: "readCell ?M i j = Some (cellOf str1 str2 i j)"
    using assms by (intro readCell_matrixAt) simp_all
  have b: "readCell ?M (Suc i) j = Some (cellOf str1 str2 (Suc i) j)"
    using assms by (intro readCell_matrixAt) simp_all
  have c: "readCell ?M i (Suc j) = Some (cellOf str1 str2 i (Suc j))"
    using assms by (intro readCell_matrixAt) simp_all
  have ch: "(charAt str2 i = charAt str1 j) = (str2 ! i = str1 ! j)"
    using assms by (simp add: charAt_def)
  show ?thesis
    using assms by (simp add: cellValue_def a b c ch cellOf_Suc)
qed

lemma writeCell_matrixAt:
  assumes "i \<le> length str2"
  shows "writeCell (matrixAt str1 str2 i j) i j (cellOf str1 str2 i j)
         = Some (matrixAt str1 str2 i (Suc j))"
proof -
  let ?M = "matrixAt str1 str2 i j"
  have row: "?M ! i = map (cellOf str1 str2 i) [0..<j]"
    using assms by (simp add: nth_matrixAt)
  have "?M[i := map (cellOf str1 str2 i) [0..<j] @ [cellOf str1 str2 i j]]
        = matrixAt str1 str2 i (Suc j)"
  proof (rule nth_equalityI)
    show "length (?M[i := map (cellOf str1 str2 i) [0..<j] @ [cellOf str1 str2 i j]])
          = length (matrixAt str1 str2 i (Suc j))"
      by simp
  next
    fix r
    assume "r < length (?M[i := map (cellOf str1 str2 i) [0..<j] @ [cellOf str1 str2 i j]])"
    then have r: "r \<le> length str2" by simp
    show "?M[i := map (cellOf str1 str2 i) [0..<j] @ [cellOf str1 str2 i j]] ! r
          = matrixAt str1 str2 i (Suc j) ! r"
    proof (cases "r = i")
      case True
      then show ?thesis using r by (simp add: nth_matrixAt)
    next
      case False
      then show ?thesis using r by (simp add: nth_matrixAt del: upt_Suc)
    qed
  qed
  then show ?thesis
    using assms by (simp add: writeCell_def writeAt_def row)
qed

lemma fillCell_matrixAt:
  assumes "i < length str2" "j < length str1"
  shows "fillCell str1 str2 (Suc i) (matrixAt str1 str2 (Suc i) (Suc j)) (Suc j)
         = Some (matrixAt str1 str2 (Suc i) (Suc (Suc j)))"
  using assms by (simp add: fillCell_def cellValue_matrixAt writeCell_matrixAt)

lemma matrixAt_next_row:
  "matrixAt str1 str2 i (Suc (length str1)) = matrixAt str1 str2 (Suc i) (Suc 0)"
proof (rule nth_equalityI)
  show "length (matrixAt str1 str2 i (Suc (length str1))) = length (matrixAt str1 str2 (Suc i) (Suc 0))"
    by simp
next
  fix r
  assume "r < length (matrixAt str1 str2 i (Suc (length str1)))"
  then have r: "r \<le> length str2" by simp
  show "matrixAt str1 str2 i (Suc (length str1)) ! r = matrixAt str1 str2 (Suc i) (Suc 0) ! r"
    using r by (simp add: nth_matrixAt del: upt_Suc)
qed

lemma fillRow_matrixAt:
  assumes "i < length str2"
  shows "fillRow str1 str2 (matrixAt str1 str2 (Suc i) (Suc 0)) (Suc i)
         = Some (matrixAt str1 str2 (Suc (Suc i)) (Suc 0))"
proof -
  have "forEachM (fillCell str1 str2 (Suc i)) (matrixAt str1 str2 (Suc i) (Suc 0))
          [Suc 0..<Suc (length str1)] = Some (matrixAt str1 str2 (Suc i) (Suc (length str1)))"
  proof (rule forEachM_upt [where S = "matrixAt str1 str2 (Suc i)"])
    fix k
    assume "Suc 0 \<le> k" "k < Suc (length str1)"
    then obtain j where "k = Suc j" "j < length str1"
      by (cases k) auto
    then show "fillCell str1 str2 (Suc i) (matrixAt str1 str2 (Suc i) k) k
               = Some (matrixAt str1 str2 (Suc i) (Suc k))"
      using assms by (simp add: fillCell_matrixAt)
  qed simp
  then show ?thesis
    by (simp add: fillRow_def matrixAt_next_row del: upt_Suc)
qed

lemma fillRows_matrixAt:
  "forEachM (fillRow str1 str2) (matrixAt str1 str2 (Suc 0) (Suc 0)) [Suc 0..<Suc (length str2)]
   = Some (matrixAt str1 str2 (Suc (length str2)) (Suc 0))"
proof (rule forEachM_upt [where S = "\<lambda>k. matrixAt str1 str2 k (Suc 0)"])
  fix k
  assume "Suc 0 \<le> k" "k < Suc (length str2)"
  then obtain i where "k = Suc i" "i < length str2"
    by (cases k) auto
  then show "fillRow str1 str2 (matrixAt str1 str2 k (Suc 0)) k = Some (matrixAt str1 str2 (Suc k) (Suc 0))"
    by (simp add: fillRow_matrixAt)
qed simp

lemma levenshteinDistance_lev: "levenshteinDistance str1 str2 = Some (lev str1 str2)"
proof -
  have "readCell (matrixAt str1 str2 (Suc (length str2)) (Suc 0)) (length str2) (length str1)
        = Some (cellOf str1 str2 (length str2) (length str1))"
    by (intro readCell_matrixAt) simp_all
  moreover have "cellOf str1 str2 (length str2) (length str1) = lev str1 str2"
    by (simp add: cellOf_def lev_rev) (rule lev_sym)
  ultimately show ?thesis
    unfolding levenshteinDistance_def
    by (simp add: initRows initCols fillRows_matrixAt del: upt_Suc)
qed

section \<open>Loops and totality\<close>

lemma forEachM_total:
  assumes "\<And>s x. \<exists>s'. f s x = Some s'"
  shows "\<exists>s'. forEachM f s xs = Some s'"
proof (induction xs arbitrary: s)
  case Nil
  show ?case by simp
next
  case (Cons x xs)
  obtain s1 where "f s x = Some s1"
    using assms by blast
  then show ?case using Cons [of s1] by simp
qed

lemma forEachM_invariant:
  assumes "forEachM f s xs = Some s'"
      and "I s"
      and "\<And>s x s'. I s \<Longrightarrow> x \<in> set xs \<Longrightarrow> f s x = Some s' \<Longrightarrow> I s'"
  shows "I s'"
  using assms
proof (induction xs arbitrary: s)
  case Nil
  then show ?case by simp
next
  case (Cons x xs)
  from Cons.prems(1) obtain s1 where s1: "f s x = Some s1" "forEachM f s1 xs = Some s'"
    by (auto split: option.splits)
  have s1_ok: "I s1"
    using Cons.prems(3) [of s x s1] Cons.prems(2) s1(1) by simp
  show ?case
  proof (rule Cons.IH [OF s1(2) s1_ok])
    fix t y t'
    assume "I t" "y \<in> set xs" "f t y = Some t'"
    then show "I t'"
      using Cons.prems(3) [of t y t'] by simp
  qed
qed

lemma foldl_invariant:
  assumes "I s" and "\<And>s x. I s \<Longrightarrow> x \<in> set xs \<Longrightarrow> I (f s x)"
  shows "I (foldl f s xs)"
  using assms
proof (induction xs arbitrary: s)
  case Nil
  then show ?case by simp
next
  case (Cons x xs)
  have step: "I (f s x)"
    using Cons.prems(2) [of s x] Cons.prems(1) by simp
  have "I (foldl f (f s x) xs)"
  proof (rule Cons.IH [OF step])
    fix t y
    assume "I t" "y \<in> set xs"
    then show "I (f t y)"
      using Cons.prems(2) [of t y] by simp
  qed
  then show ?case by simp
qed

lemma fuzzyStep_total: "\<exists>st'. fuzzyStep normalizedWord st entry = Some st'"
  by (cases entry) (simp add: fuzzyStep_def levenshteinDistance_lev)

lemma fuzzyPass_total: "\<exists>st'. fuzzyPass idx normalizedWord maxResults st = Some st'"
  unfolding fuzzyPass_def
  using forEachM_total [of "fuzzyStep normalizedWord" st idx] fuzzyStep_total by simp

lemma wordMatches_total: "\<exists>matches. wordMatches idx word maxResults = Some matches"
proof -
  obtain st3 where
    "fuzzyPass idx (trim (toLowerCase word)) maxResults
       (foldl (prefixStep (trim (toLowerCase word)))
          (exactPass idx (trim (toLowerCase word)) ([], {})) idx) = Some st3"
    using fuzzyPass_total by blast
  then show ?thesis
    by (simp add: wordMatches_def Let_def)
qed

lemma predictEmojisForWord_total: "\<exists>out. predictEmojisForWord idx word maxResults = Some out"
proof -
  obtain matches where "wordMatches idx word maxResults = Some matches"
    using wordMatches_total by blast
  then show ?thesis
    by (simp add: predictEmojisForWord_def)
qed

lemma wordStep_total: "\<exists>st'. wordStep idx st word = Some st'"
proof -
  obtain out where "predictEmojisForWord idx word 3 = Some out"
    using predictEmojisForWord_total by blast
  then show ?thesis by (simp add: wordStep_def)
qed

lemma sentenceMatches_total: "\<exists>matches. sentenceMatches db idx sentence = Some matches"
proof -
  obtain st1 where
    "forEachM (wordStep idx) ([], {}) (splitWhitespace (trim (toLowerCase sentence))) = Some st1"
    using forEachM_total [of "wordStep idx"] wordStep_total by blast
  then show ?thesis
    by (simp add: sentenceMatches_def Let_def)
qed

lemma predictEmojisForSentence_total:
  "\<exists>out. predictEmojisForSentence db idx sentence maxResults = Some out"
proof -
  obtain matches where "sentenceMatches db idx sentence = Some matches"
    using sentenceMatches_total by blast
  then show ?thesis
    by (simp add: predictEmojisForSentence_def)
qed

lemma length_slice0: "0 \<le> n \<Longrightarrow> int (length (slice0 xs n)) \<le> n"
  by (simp add: slice0_def Let_def)


section \<open>The cap on the length of the result\<close>

text \<open>
  Claim C5.  For every knowledge base, every input string and every \<open>maxResults = n\<close> with
  \<open>0 \<le> n\<close>, \<open>predictEmojisForWord\<close> and \<open>predictEmojisForSentence\<close> return a sequence, and
  its length is at most \<open>n\<close>.
\<close>

theorem cap_invariant:
  assumes "0 \<le> n"
  shows "(\<exists>out. predictEmojisForWord idx word n = Some out \<and> int (length out) \<le> n) \<and>
         (\<exists>out. predictEmojisForSentence db idx sentence n = Some out \<and> int (length out) \<le> n)"
proof
  obtain out where out: "predictEmojisForWord idx word n = Some out"
    using predictEmojisForWord_total by blast
  then have "int (length out) \<le> n"
    using assms by (auto simp: predictEmojisForWord_def length_slice0 split: if_splits option.splits)
  then show "\<exists>out. predictEmojisForWord idx word n = Some out \<and> int (length out) \<le> n"
    using out by simp
next
  obtain out where out: "predictEmojisForSentence db idx sentence n = Some out"
    using predictEmojisForSentence_total by blast
  then have "int (length out) \<le> n"
    using assms
    by (auto simp: predictEmojisForSentence_def length_slice0 split: if_splits option.splits)
  then show "\<exists>out. predictEmojisForSentence db idx sentence n = Some out \<and> int (length out) \<le> n"
    using out by simp
qed

theorem cap_invariant_witness:
  "(0::int) \<le> 1 \<and>
   (\<exists>out. predictEmojisForWord [(''happy'', [''H'', ''J''])] ''happy'' 1 = Some out \<and>
      int (length out) \<le> 1) \<and>
   (\<exists>out. predictEmojisForSentence
            [\<lparr>EmojiData.emoji = ''H'', keywords' = [''happy''], category = ''smileys''\<rparr>]
            [(''happy'', [''H'', ''J''])] ''so happy'' 1 = Some out \<and>
      int (length out) \<le> 1)"
  using cap_invariant [of 1 "[(''happy'', [''H'', ''J''])]" "''happy''"
      "[\<lparr>EmojiData.emoji = ''H'', keywords' = [''happy''], category = ''smileys''\<rparr>]"
      "''so happy''"]
  by simp

section \<open>No symbol is returned twice\<close>

lemma wellClaimed_empty: "wellClaimed ([], {})"
  by (simp add: wellClaimed_def)

lemma claim_wellClaimed: "wellClaimed st \<Longrightarrow> wellClaimed (claim sc mt st e)"
  by (cases st) (simp add: wellClaimed_def claim_def)

lemma claimAll_wellClaimed: "wellClaimed st \<Longrightarrow> wellClaimed (claimAll sc mt st emojis)"
  unfolding claimAll_def
  by (rule foldl_invariant [where I = wellClaimed]) (simp_all add: claim_wellClaimed)

lemma exactPass_wellClaimed: "wellClaimed st \<Longrightarrow> wellClaimed (exactPass idx w st)"
  by (simp add: exactPass_def claimAll_wellClaimed split: option.splits)

lemma prefixStep_wellClaimed: "wellClaimed st \<Longrightarrow> wellClaimed (prefixStep w st entry)"
  by (cases entry) (simp add: prefixStep_def claimAll_wellClaimed)

lemma semanticStep_wellClaimed: "wellClaimed st \<Longrightarrow> wellClaimed (semanticStep w st entry)"
  by (cases entry) (simp add: semanticStep_def claimAll_wellClaimed)

lemma fuzzyStep_wellClaimed:
  "wellClaimed st \<Longrightarrow> fuzzyStep w st entry = Some st' \<Longrightarrow> wellClaimed st'"
  by (cases entry)
    (auto simp: fuzzyStep_def claimAll_wellClaimed split: if_splits option.splits)

lemma fuzzyPass_wellClaimed:
  assumes "wellClaimed st" "fuzzyPass idx w n st = Some st'"
  shows "wellClaimed st'"
proof (cases "int (length (fst st)) < n")
  case True
  then have "forEachM (fuzzyStep w) st idx = Some st'"
    using assms(2) by (simp add: fuzzyPass_def)
  then show ?thesis
    by (rule forEachM_invariant [where I = wellClaimed])
      (simp_all add: assms(1) fuzzyStep_wellClaimed)
next
  case False
  then show ?thesis using assms by (simp add: fuzzyPass_def)
qed

lemma semanticPass_wellClaimed: "wellClaimed st \<Longrightarrow> wellClaimed (semanticPass idx w n st)"
  unfolding semanticPass_def
  by (simp add: foldl_invariant [where I = wellClaimed] semanticStep_wellClaimed)

lemma prefixPass_wellClaimed:
  "wellClaimed st \<Longrightarrow> wellClaimed (foldl (prefixStep w) st idx)"
  by (rule foldl_invariant [where I = wellClaimed]) (simp_all add: prefixStep_wellClaimed)

lemma wordMatches_distinct:
  assumes "wordMatches idx word n = Some matches"
  shows "distinct (map EmojiMatch.emoji matches)"
proof -
  let ?w = "trim (toLowerCase word)"
  let ?st2 = "foldl (prefixStep ?w) (exactPass idx ?w ([], {})) idx"
  from assms obtain st3 where st3: "fuzzyPass idx ?w n ?st2 = Some st3"
    and m: "matches = fst (semanticPass idx ?w n st3)"
    by (auto simp: wordMatches_def Let_def split: option.splits)
  have "wellClaimed ?st2"
    by (intro prefixPass_wellClaimed exactPass_wellClaimed wellClaimed_empty)
  then have "wellClaimed st3"
    using st3 by (rule fuzzyPass_wellClaimed)
  then have "wellClaimed (semanticPass idx ?w n st3)"
    by (rule semanticPass_wellClaimed)
  then show ?thesis
    using m by (simp add: wellClaimed_def)
qed

lemma distinct_map_insort_key:
  "distinct (map f (insort_key k x xs)) = (f x \<notin> f ` set xs \<and> distinct (map f xs))"
  by (induction xs) (auto simp: set_insort_key)

lemma distinct_map_sort_key: "distinct (map f (sort_key k xs)) = distinct (map f xs)"
  by (induction xs) (simp_all add: distinct_map_insort_key)

lemma distinct_ranked:
  assumes "distinct (map EmojiMatch.emoji matches)"
  shows "distinct (map EmojiMatch.emoji (slice0 (sortByScore matches) n))"
proof -
  have "distinct (map EmojiMatch.emoji (sortByScore matches))"
    using assms by (simp add: sortByScore_def distinct_map_sort_key)
  then show ?thesis
    by (simp add: slice0_def Let_def take_map [symmetric] del: take_map)
qed

lemma predictEmojisForWord_distinct:
  assumes "predictEmojisForWord idx word n = Some out"
  shows "distinct out"
proof (cases "word = [] \<or> length word < 2")
  case True
  then show ?thesis using assms by (simp add: predictEmojisForWord_def)
next
  case False
  then obtain matches where "wordMatches idx word n = Some matches"
    and "out = map EmojiMatch.emoji (slice0 (sortByScore matches) n)"
    using assms by (auto simp: predictEmojisForWord_def split: option.splits)
  then show ?thesis
    by (simp add: distinct_ranked wordMatches_distinct)
qed

lemma wordStep_wellClaimed:
  "wellClaimed st \<Longrightarrow> wordStep idx st word = Some st' \<Longrightarrow> wellClaimed st'"
  by (auto simp: wordStep_def claimAll_wellClaimed split: option.splits)

lemma recordStep_wellClaimed: "wellClaimed st \<Longrightarrow> wellClaimed (recordStep ns st data)"
  by (cases st) (simp add: recordStep_def wellClaimed_def split: prod.splits)

lemma sentenceMatches_distinct:
  assumes "sentenceMatches db idx sentence = Some matches"
  shows "distinct (map EmojiMatch.emoji matches)"
proof -
  let ?ns = "trim (toLowerCase sentence)"
  from assms obtain st1 where st1: "forEachM (wordStep idx) ([], {}) (splitWhitespace ?ns) = Some st1"
    and m: "matches = fst (foldl (recordStep ?ns) st1 db)"
    by (auto simp: sentenceMatches_def Let_def split: option.splits)
  have "wellClaimed st1"
    using st1
    by (rule forEachM_invariant [where I = wellClaimed])
      (simp_all add: wellClaimed_empty wordStep_wellClaimed)
  then have "wellClaimed (foldl (recordStep ?ns) st1 db)"
    by (rule foldl_invariant [where I = wellClaimed]) (simp add: recordStep_wellClaimed)
  then show ?thesis
    using m by (simp add: wellClaimed_def)
qed

text \<open>
  Claim C6.  For every knowledge base, every input string and every \<open>maxResults\<close>, the
  sequences that \<open>predictEmojisForWord\<close> and \<open>predictEmojisForSentence\<close> return contain
  no symbol twice.
\<close>

theorem dedup_invariant:
  "(\<exists>out. predictEmojisForWord idx word n = Some out \<and> distinct out) \<and>
   (\<exists>out. predictEmojisForSentence db idx sentence n = Some out \<and> distinct out)"
proof
  obtain out where out: "predictEmojisForWord idx word n = Some out"
    using predictEmojisForWord_total by blast
  then show "\<exists>out. predictEmojisForWord idx word n = Some out \<and> distinct out"
    using predictEmojisForWord_distinct by blast
next
  obtain out where out: "predictEmojisForSentence db idx sentence n = Some out"
    using predictEmojisForSentence_total by blast
  have "distinct out"
  proof (cases "sentence = [] \<or> length (trim sentence) = 0")
    case True
    then show ?thesis using out by (simp add: predictEmojisForSentence_def)
  next
    case False
    then obtain matches where "sentenceMatches db idx sentence = Some matches"
      and "out = map EmojiMatch.emoji (slice0 (sortByScore matches) n)"
      using out by (auto simp: predictEmojisForSentence_def split: option.splits)
    then show ?thesis
      by (simp add: distinct_ranked sentenceMatches_distinct)
  qed
  then show "\<exists>out. predictEmojisForSentence db idx sentence n = Some out \<and> distinct out"
    using out by blast
qed

section \<open>Ranking, guards and totality\<close>














lemma slice0_negative: "0 < k \<Longrightarrow> slice0 xs (- int k) = take (length xs - k) xs"
proof -
  assume k: "0 < k"
  have "nat (max (int (length xs) + - int k) 0) = length xs - k"
    by (simp add: max_def) linarith
  then show ?thesis
    using k by (simp add: slice0_def Let_def)
qed

text \<open>
  Claim C10.  For a word that passes the length guard and a negative
  \<open>maxResults = - k\<close>, \<open>predictEmojisForWord\<close> returns the ranked candidate list without
  its last \<open>k\<close> elements.  The result is empty only when \<open>k\<close> is at least the number of
  candidates, and it is never the full ranking when there is a candidate; so its
  length is not bounded by \<open>maxResults\<close>.
\<close>

theorem negative_maxResults:
  assumes "0 < k" "2 \<le> length word"
  shows "\<exists>matches out.
           wordMatches idx word (- int k) = Some matches \<and>
           matches = fst (foldl (prefixStep (trim (toLowerCase word)))
                            (exactPass idx (trim (toLowerCase word)) ([], {})) idx) \<and>
           predictEmojisForWord idx word (- int k) = Some out \<and>
           out = take (length matches - k) (map EmojiMatch.emoji (sortByScore matches)) \<and>
           length out = length matches - k \<and>
           (out = [] \<longleftrightarrow> length matches \<le> k) \<and>
           (matches \<noteq> [] \<longrightarrow> out \<noteq> map EmojiMatch.emoji (sortByScore matches))"
proof -
  obtain matches where ms: "wordMatches idx word (- int k) = Some matches"
    using wordMatches_total by blast
  have gated: "\<not> int (length (fst st)) < - int k" for st :: claims
    by simp
  have early: "matches = fst (foldl (prefixStep (trim (toLowerCase word)))
                            (exactPass idx (trim (toLowerCase word)) ([], {})) idx)"
    using ms by (simp add: wordMatches_def Let_def fuzzyPass_def semanticPass_def gated)
  let ?ranked = "map EmojiMatch.emoji (sortByScore matches)"
  let ?out = "take (length matches - k) ?ranked"
  have len: "length ?ranked = length matches"
    by (simp add: sortByScore_def)
  have "slice0 (sortByScore matches) (- int k) = take (length matches - k) (sortByScore matches)"
    using assms(1) by (simp add: slice0_negative sortByScore_def)
  moreover have "\<not> (word = [] \<or> length word < 2)"
    using assms(2) by auto
  ultimately have "predictEmojisForWord idx word (- int k) = Some ?out"
    using ms by (simp add: predictEmojisForWord_def take_map)
  moreover have "length ?out = length matches - k"
    using len by simp
  moreover have "(?out = []) = (length matches \<le> k)"
    using len by (cases matches) auto
  moreover have "matches \<noteq> [] \<longrightarrow> ?out \<noteq> ?ranked"
  proof
    assume "matches \<noteq> []"
    then have "length ?out < length ?ranked"
      using assms(1) len by simp
    then show "?out \<noteq> ?ranked" by auto
  qed
  ultimately show ?thesis
    using ms early by blast
qed

theorem negative_maxResults_witness:
  "(0::nat) < 1 \<and> 2 \<le> length ''happy'' \<and>
   predictEmojisForWord [(''happy'', [''H'', ''J''])] ''happy'' (- 1) = Some [''H''] \<and>
   (\<exists>matches out.
      wordMatches [(''happy'', [''H'', ''J''])] ''happy'' (- int 1) = Some matches \<and>
      predictEmojisForWord [(''happy'', [''H'', ''J''])] ''happy'' (- int 1) = Some out \<and>
      matches \<noteq> [] \<and> out \<noteq> [] \<and> out \<noteq> map EmojiMatch.emoji (sortByScore matches))"
proof -
  let ?idx = "[(''happy'', [''H'', ''J''])]"
  have wm: "wordMatches ?idx ''happy'' (- 1) =
      Some [\<lparr>emoji = ''H'', score = 100, matchType = Exact\<rparr>,
            \<lparr>emoji = ''J'', score = 100, matchType = Exact\<rparr>]"
    by code_simp
  have pe: "predictEmojisForWord ?idx ''happy'' (- 1) = Some [''H'']"
    by code_simp
  have "(0::nat) < 1" and "2 \<le> length ''happy''"
    by simp_all
  from negative_maxResults [OF this, of ?idx] obtain matches out
    where m: "wordMatches ?idx ''happy'' (- int 1) = Some matches"
      and p: "predictEmojisForWord ?idx ''happy'' (- int 1) = Some out"
      and ne: "matches \<noteq> [] \<longrightarrow> out \<noteq> map EmojiMatch.emoji (sortByScore matches)"
    by blast
  have "matches = [\<lparr>emoji = ''H'', score = 100, matchType = Exact\<rparr>,
                   \<lparr>emoji = ''J'', score = 100, matchType = Exact\<rparr>]"
    using m wm by simp
  then have "matches \<noteq> []"
    by simp
  moreover have "out = [''H'']"
    using p pe by simp
  ultimately show ?thesis
    using m p ne pe by simp
qed

text \<open>
  Claim C1, as stated, fails: the guard reads the length of the word as it is given,
  before it is trimmed.  The word \<open>''a ''\<close> has two characters, its trimmed form has one,
  and it is scored: with the keyword \<open>''apple''\<close> in the index the result is not empty.
\<close>

theorem short_word_counterexample:
  "\<not> (''a '' = [] \<or> length (trim ''a '') < 2
        \<longrightarrow> predictEmojisForWord [(''apple'', [''A''])] ''a '' 5 = Some [])"
proof -
  have "length (trim ''a '') < 2" by code_simp
  moreover have "predictEmojisForWord [(''apple'', [''A''])] ''a '' 5 = Some [''A'']"
    by code_simp
  ultimately show ?thesis by simp
qed

text \<open>
  Claim C1, amended.  For every input word that is empty or whose length, as given and
  before trimming, is less than 2, \<open>predictEmojisForWord\<close> returns the empty sequence at
  once; in particular for \<open>''a''\<close> and for the empty word with \<open>maxResults = 5\<close>.
\<close>

theorem short_word_rejected:
  "(word = [] \<or> length word < 2 \<longrightarrow> predictEmojisForWord idx word n = Some []) \<and>
   predictEmojisForWord idx ''a'' 5 = Some [] \<and>
   predictEmojisForWord idx '''' 5 = Some []"
  by (simp add: predictEmojisForWord_def)

theorem short_word_rejected_witness:
  "(''a'' = [] \<or> length ''a'' < 2) \<and>
   predictEmojisForWord [(''apple'', [''A''])] ''a'' 5 = Some []"
  using short_word_rejected [of "''a''" "[(''apple'', [''A''])]" 5] by simp

text \<open>
  Claim C7.  No operation of the engine fails, on any input: \<open>predictEmojisForWord\<close> and
  \<open>predictEmojisForSentence\<close> always return a sequence (the reads of the distance matrix
  always find their cell), empty on the empty string; \<open>getEmojisByCategory\<close> returns
  symbols of records of the category asked for; \<open>getPopularEmojis\<close> is a list of twenty
  symbols.
\<close>

theorem no_failure:
  "(\<exists>out. predictEmojisForWord idx word n = Some out) \<and>
   (\<exists>out. predictEmojisForSentence db idx sentence n = Some out) \<and>
   (\<exists>d. levenshteinDistance str1 str2 = Some d) \<and>
   set (getEmojisByCategory db cat limit)
     \<subseteq> EmojiData.emoji ` {data \<in> set db. category data = cat} \<and>
   length getPopularEmojis = 20 \<and>
   predictEmojisForWord idx '''' n = Some [] \<and>
   predictEmojisForSentence db idx '''' n = Some []"
proof -
  have "set (slice0 (filter (\<lambda>data. category data = cat) db) limit)
        \<subseteq> {data \<in> set db. category data = cat}"
    using set_take_subset [of _ "filter (\<lambda>data. category data = cat) db"]
    by (fastforce simp: slice0_def Let_def)
  then have "set (getEmojisByCategory db cat limit)
             \<subseteq> EmojiData.emoji ` {data \<in> set db. category data = cat}"
    unfolding getEmojisByCategory_def by auto
  moreover have "length getPopularEmojis = 20"
    by (simp add: getPopularEmojis_def)
  moreover have "predictEmojisForWord idx '''' n = Some []"
    by (simp add: predictEmojisForWord_def)
  moreover have "predictEmojisForSentence db idx '''' n = Some []"
    by (simp add: predictEmojisForSentence_def)
  ultimately show ?thesis
    using predictEmojisForWord_total predictEmojisForSentence_total levenshteinDistance_lev
    by blast
qed

section \<open>Rounding to a double\<close>

lemma roundHalfEven_of_int [simp]: "roundHalfEven (of_int k) = k"
  by (simp add: roundHalfEven_def)

lemma roundHalfEven_ge_floor: "\<lfloor>x\<rfloor> \<le> roundHalfEven x"
  by (simp add: roundHalfEven_def Let_def)

lemma roundHalfEven_le_ceiling: "roundHalfEven x \<le> \<lceil>x\<rceil>"
proof -
  have "x - of_int \<lfloor>x\<rfloor> \<ge> 1 / 2 \<Longrightarrow> \<lfloor>x\<rfloor> + 1 \<le> \<lceil>x\<rceil>"
    by linarith
  then show ?thesis
    unfolding roundHalfEven_def Let_def by (auto intro: order_trans [OF floor_le_ceiling])
qed

lemma roundHalfEven_near:
  assumes "of_int m - 1 / 2 < x" "x < of_int m + 1 / 2"
  shows "roundHalfEven x = m"
proof -
  have "\<lfloor>x\<rfloor> = m \<or> \<lfloor>x\<rfloor> = m - 1"
    using assms by linarith
  then show ?thesis
  proof
    assume f: "\<lfloor>x\<rfloor> = m"
    then have "x - of_int \<lfloor>x\<rfloor> < 1 / 2"
      using assms by simp
    then show ?thesis
      using f by (simp add: roundHalfEven_def Let_def)
  next
    assume f: "\<lfloor>x\<rfloor> = m - 1"
    then have "1 / 2 < x - of_int \<lfloor>x\<rfloor>"
      using assms by simp
    then show ?thesis
      using f by (simp add: roundHalfEven_def Let_def)
  qed
qed

lemma ulpOf_pos: "0 < ulpOf x"
  by (simp add: ulpOf_def)

text \<open>The binade of a positive number.\<close>

lemma exponentOf_eq:
  assumes "2 powr of_int e \<le> x" "x < 2 powr of_int (e + 1)" "- 1022 \<le> e"
  shows "exponentOf x = e"
proof -
  have pos: "0 < x"
    using assms(1) powr_gt_zero [of 2 "of_int e"] by linarith
  have "of_int e \<le> log 2 x"
    using assms(1) pos by (simp add: le_log_iff)
  moreover have "log 2 x < of_int (e + 1)"
    using assms(2) pos by (simp add: log_less_iff)
  ultimately have "\<lfloor>log 2 x\<rfloor> = e"
    by linarith
  then show ?thesis
    using assms(3) pos by (simp add: exponentOf_def)
qed

lemma powr_split:
  "(2::real) powr of_int e = 4503599627370496 * 2 powr of_int (e - 52)"
  "(2::real) powr of_int (e + 1) = 9007199254740992 * 2 powr of_int (e - 52)"
proof -
  have "(2::real) powr of_int e = 2 powr (of_int (e - 52) + 52)"
    by simp
  also have "\<dots> = 2 powr of_int (e - 52) * 2 powr 52"
    by (rule powr_add)
  finally show "(2::real) powr of_int e = 4503599627370496 * 2 powr of_int (e - 52)"
    by simp
  have "(2::real) powr of_int (e + 1) = 2 powr (of_int (e - 52) + 53)"
    by (simp add: algebra_simps)
  also have "\<dots> = 2 powr of_int (e - 52) * 2 powr 53"
    by (rule powr_add)
  finally show "(2::real) powr of_int (e + 1) = 9007199254740992 * 2 powr of_int (e - 52)"
    by simp
qed

lemma roundDouble_eqI:
  assumes e: "- 1022 \<le> e"
      and m: "4503599627370496 < m" "m < 9007199254740992"
      and lo: "(of_int m - 1 / 2) * 2 powr of_int (e - 52) < x"
      and hi: "x < (of_int m + 1 / 2) * 2 powr of_int (e - 52)"
  shows "roundDouble x = of_int m * 2 powr of_int (e - 52)"
proof -
  define u :: real where "u = 2 powr of_int (e - 52)"
  have u: "0 < u" by (simp add: u_def)
  have m1: "(4503599627370496::real) \<le> of_int m - 1 / 2"
    using m(1) by linarith
  have m2: "of_int m + 1 / 2 \<le> (9007199254740992::real)"
    using m(2) by linarith
  have lo': "(of_int m - 1 / 2) * u < x" and hi': "x < (of_int m + 1 / 2) * u"
    using lo hi by (simp_all add: u_def)
  have ps: "2 powr of_int e = 4503599627370496 * u"
    "2 powr of_int (e + 1) = 9007199254740992 * u"
    using powr_split [of e] by (simp_all add: u_def)
  have "4503599627370496 * u \<le> (of_int m - 1 / 2) * u"
    using u m1 by (rule_tac mult_right_mono) simp_all
  then have low: "2 powr of_int e \<le> x"
    using lo' ps(1) by linarith
  have "(of_int m + 1 / 2) * u \<le> 9007199254740992 * u"
    using u m2 by (rule_tac mult_right_mono) simp_all
  then have high: "x < 2 powr of_int (e + 1)"
    using hi' ps(2) by linarith
  have ex: "exponentOf x = e"
    using low high e by (rule exponentOf_eq)
  have "0 < 2 powr (of_int e :: real)"
    by simp
  then have x0: "x \<noteq> 0"
    using low by linarith
  have "of_int m - 1 / 2 < x / u" "x / u < of_int m + 1 / 2"
    using lo' hi' u by (simp_all add: pos_less_divide_eq pos_divide_less_eq)
  then have "roundHalfEven (x / u) = m"
    by (rule roundHalfEven_near)
  then show ?thesis
    using x0 by (simp add: roundDouble_def ulpOf_def ex u_def)
qed

lemma roundDouble_of_int:
  assumes "\<bar>k\<bar> < 9007199254740992"
  shows "roundDouble (of_int k) = of_int k"
proof (cases "k = 0")
  case True
  then show ?thesis by (simp add: roundDouble_def)
next
  case False
  define e where "e = exponentOf (of_int k)"
  have k1: "1 \<le> \<bar>real_of_int k\<bar>"
    using False by (simp flip: of_int_abs add: int_one_le_iff_zero_less)
  have k2: "\<bar>real_of_int k\<bar> < 2 powr 53"
    using assms by (simp flip: of_int_abs)
  have "0 \<le> log 2 \<bar>real_of_int k\<bar>"
    using k1 by simp
  moreover have "log 2 \<bar>real_of_int k\<bar> < 53"
    using k1 k2 by (simp add: log_less_iff)
  ultimately have fl: "0 \<le> \<lfloor>log 2 \<bar>real_of_int k\<bar>\<rfloor>" "\<lfloor>log 2 \<bar>real_of_int k\<bar>\<rfloor> \<le> 52"
    by linarith+
  then have e: "0 \<le> e" "e \<le> 52"
    by (simp_all add: e_def exponentOf_def)
  define n where "n = nat (52 - e)"
  have "real_of_int (e - 52) = - real n"
    using e by (simp add: n_def)
  then have u: "ulpOf (of_int k) = 1 / 2 ^ n"
    by (simp add: ulpOf_def e_def [symmetric] powr_minus powr_realpow inverse_eq_divide)
  have "real_of_int k / ulpOf (of_int k) = of_int (k * 2 ^ n)"
    by (simp add: u)
  then have "roundHalfEven (real_of_int k / ulpOf (of_int k)) = k * 2 ^ n"
    by (simp only: roundHalfEven_of_int)
  then show ?thesis
    using False by (simp add: roundDouble_def u)
qed

lemma roundDouble_of_nat: "n < 9007199254740992 \<Longrightarrow> roundDouble (real n) = real n"
  using roundDouble_of_int [of "int n"] by simp

lemma roundDouble_ge_powr:
  assumes "2 powr of_int e \<le> x" "- 1022 \<le> e"
  shows "2 powr of_int e \<le> roundDouble x"
proof -
  have pos: "0 < x"
    using assms(1) powr_gt_zero [of 2 "of_int e"] by linarith
  define e' where "e' = \<lfloor>log 2 x\<rfloor>"
  have "of_int e \<le> log 2 x"
    using assms(1) pos by (simp add: le_log_iff)
  then have ee: "e \<le> e'"
    by (simp add: e'_def le_floor_iff)
  then have ex: "exponentOf x = e'"
    using assms(2) pos by (simp add: exponentOf_def e'_def)
  define u :: real where "u = 2 powr of_int (e' - 52)"
  have u: "0 < u" by (simp add: u_def)
  have "of_int e' \<le> log 2 x"
    by (simp add: e'_def)
  then have "2 powr of_int e' \<le> x"
    using pos by (simp add: le_log_iff)
  then have "4503599627370496 * u \<le> x"
    using powr_split(1) [of e'] by (simp add: u_def)
  then have "4503599627370496 \<le> x / u"
    using u by (simp add: pos_le_divide_eq)
  then have "(4503599627370496::int) \<le> \<lfloor>x / u\<rfloor>"
    by (simp add: le_floor_iff)
  then have "(4503599627370496::int) \<le> roundHalfEven (x / u)"
    using roundHalfEven_ge_floor [of "x / u"] by linarith
  then have "(4503599627370496::real) \<le> of_int (roundHalfEven (x / u))"
    by linarith
  then have "4503599627370496 * u \<le> of_int (roundHalfEven (x / u)) * u"
    using u by (rule_tac mult_right_mono) simp_all
  then have "2 powr of_int e' \<le> roundDouble x"
    using pos powr_split(1) [of e'] by (simp add: roundDouble_def ulpOf_def ex u_def)
  moreover have "(2::real) powr of_int e \<le> 2 powr of_int e'"
    using ee by simp
  ultimately show ?thesis
    by linarith
qed

lemma roundDouble_ge_1: "1 \<le> x \<Longrightarrow> 1 \<le> roundDouble x"
  using roundDouble_ge_powr [of 0 x] by simp

lemma roundDouble_le_powr:
  assumes "0 < x" "exponentOf x \<le> e"
  shows "roundDouble x \<le> 2 powr of_int (e + 1)"
proof -
  define e' where "e' = exponentOf x"
  define u :: real where "u = 2 powr of_int (e' - 52)"
  have u: "0 < u" by (simp add: u_def)
  have "\<lfloor>log 2 x\<rfloor> \<le> e'"
    using assms(1) by (simp add: e'_def exponentOf_def)
  then have "log 2 x < of_int (e' + 1)"
    by linarith
  then have "x < 2 powr of_int (e' + 1)"
    using assms(1) by (simp add: log_less_iff)
  then have "x < 9007199254740992 * u"
    using powr_split(2) [of e'] by (simp add: u_def)
  then have "x / u \<le> 9007199254740992"
    using u by (simp add: pos_divide_le_eq)
  then have "\<lceil>x / u\<rceil> \<le> (9007199254740992::int)"
    by (simp add: ceiling_le_iff)
  then have "roundHalfEven (x / u) \<le> (9007199254740992::int)"
    using roundHalfEven_le_ceiling [of "x / u"] by linarith
  then have "of_int (roundHalfEven (x / u)) \<le> (9007199254740992::real)"
    by linarith
  then have "of_int (roundHalfEven (x / u)) * u \<le> 9007199254740992 * u"
    using u by (rule_tac mult_right_mono) simp_all
  then have "roundDouble x \<le> 2 powr of_int (e' + 1)"
    using assms(1) powr_split(2) [of e'] by (simp add: roundDouble_def ulpOf_def e'_def u_def)
  moreover have "(2::real) powr of_int (e' + 1) \<le> 2 powr of_int (e + 1)"
    using assms(2) by (simp add: e'_def)
  ultimately show ?thesis
    by linarith
qed

lemma roundDouble_nonpos:
  assumes "x \<le> 0"
  shows "roundDouble x \<le> 0"
proof (cases "x = 0")
  case True
  then show ?thesis by (simp add: roundDouble_def)
next
  case False
  have u: "0 < ulpOf x" by (rule ulpOf_pos)
  have "x / ulpOf x \<le> 0"
    using assms u by (simp add: divide_le_0_iff)
  then have "\<lceil>x / ulpOf x\<rceil> \<le> 0"
    by (simp add: ceiling_le_iff)
  then have "roundHalfEven (x / ulpOf x) \<le> 0"
    using roundHalfEven_le_ceiling [of "x / ulpOf x"] by linarith
  then have "real_of_int (roundHalfEven (x / ulpOf x)) \<le> 0"
    by linarith
  then have "real_of_int (roundHalfEven (x / ulpOf x)) * ulpOf x \<le> 0"
    using u by (simp add: mult_le_0_iff)
  then show ?thesis
    using False by (simp add: roundDouble_def)
qed

lemma powr_m54: "(2::real) powr (- 54) = 1 / 18014398509481984"
proof -
  have "(2::real) powr (- 54) = 1 / 2 powr 54"
    by (simp add: powr_minus inverse_eq_divide)
  then show ?thesis by simp
qed

lemma roundDouble_threshold: "roundDouble (3 / 10) = 5404319552844595 / 18014398509481984"
proof -
  have "roundDouble (3 / 10) = of_int 5404319552844595 * 2 powr of_int (- 2 - 52)"
    by (rule roundDouble_eqI) (simp_all add: powr_m54)
  then show ?thesis
    by (simp add: powr_m54)
qed

lemma above_threshold:
  "(roundDouble (3 / 10) < roundDouble y) = (3 / 10 < roundDouble y)"
proof
  assume "3 / 10 < roundDouble y"
  then show "roundDouble (3 / 10) < roundDouble y"
    by (simp add: roundDouble_threshold)
next
  assume "roundDouble (3 / 10) < roundDouble y"
  then have s: "5404319552844595 / 18014398509481984 < roundDouble y"
    by (simp add: roundDouble_threshold)
  have pos: "0 < y"
  proof (rule ccontr)
    assume "\<not> 0 < y"
    then have "roundDouble y \<le> 0"
      by (intro roundDouble_nonpos) simp
    then show False using s by simp
  qed
  define e where "e = exponentOf y"
  consider "- 1 \<le> e" | "e = - 2" | "e \<le> - 3"
    by linarith
  then show "3 / 10 < roundDouble y"
  proof cases
    case 1
    then have "- 1 \<le> \<lfloor>log 2 y\<rfloor>"
      using pos by (simp add: e_def exponentOf_def)
    then have "of_int (- 1) \<le> log 2 y"
      by linarith
    then have "2 powr of_int (- 1) \<le> y"
      using pos by (simp only: le_log_iff) 
    then have "2 powr of_int (- 1) \<le> roundDouble y"
      by (rule roundDouble_ge_powr) simp
    moreover have "(2::real) powr of_int (- 1) = 1 / 2"
      by (simp add: powr_minus inverse_eq_divide)
    ultimately show ?thesis by simp
  next
    case 2
    define r where "r = roundHalfEven (y / ulpOf y)"
    have u: "ulpOf y = 1 / 18014398509481984"
      using 2 powr_m54 by (simp add: ulpOf_def e_def)
    have val: "roundDouble y = of_int r / 18014398509481984"
      using pos by (simp add: roundDouble_def u r_def)
    then have "(5404319552844595::real) < of_int r"
      using s by simp
    then have "5404319552844595 < r"
      by linarith
    then have "(5404319552844596::real) \<le> of_int r"
      by linarith
    then show ?thesis
      by (simp add: val)
  next
    case 3
    then have "roundDouble y \<le> 2 powr of_int (- 3 + 1)"
      using pos by (intro roundDouble_le_powr) (simp_all add: e_def)
    moreover have "(2::real) powr of_int (- 3 + 1) = 1 / 4"
    proof -
      have "(2::real) powr of_int (- 3 + 1) = 2 powr (- 2)" by simp
      also have "\<dots> = 1 / 2 powr 2" by (simp add: powr_minus inverse_eq_divide)
      finally show ?thesis by simp
    qed
    ultimately show ?thesis using s by simp
  qed
qed

section \<open>Properties of the cosine similarity\<close>

lemma newSet_acc:
  "set (foldl (\<lambda>acc x. if x \<in> set acc then acc else acc @ [x]) acc xs) = set acc \<union> set xs \<and>
   (distinct acc \<longrightarrow> distinct (foldl (\<lambda>acc x. if x \<in> set acc then acc else acc @ [x]) acc xs))"
  by (induction xs arbitrary: acc) auto

lemma set_newSet: "set (newSet xs) = set xs"
  using newSet_acc [of "[]" xs] by (simp add: newSet_def)

lemma distinct_newSet: "distinct (newSet xs)"
  using newSet_acc [of "[]" xs] by (simp add: newSet_def)

lemma set_allWords:
  "set (allWords str1 str2)
   = set (splitWhitespace (toLowerCase str1)) \<union> set (splitWhitespace (toLowerCase str2))"
  by (simp add: allWords_def set_newSet)


lemma vector1_wordCount: "vector1 str1 str2 = map (wordCount str1) (allWords str1 str2)"
  by (simp add: vector1_def wordCount_def)

lemma vector2_wordCount: "vector2 str1 str2 = map (wordCount str2) (allWords str1 str2)"
  by (simp add: vector2_def wordCount_def)

lemma length_vector2: "length (vector2 str1 str2) = length (vector1 str1 str2)"
  by (simp add: vector1_def vector2_def)

lemma foldl_add_sum_list:
  "foldl (\<lambda>sum val. sum + g val) a xs = a + sum_list (map g xs)"
  for a :: nat
  by (induction xs arbitrary: a) simp_all

lemma sumSquares_sum_list: "sumSquares v = sum_list (map (\<lambda>val. val * val) v)"
  by (simp add: sumSquares_def foldl_add_sum_list)

lemma dotProduct_acc:
  "k + length v1 \<le> length v2 \<Longrightarrow>
   foldl (\<lambda>sum (val, i). sum + val * (v2 ! i)) a (zip v1 [k..<k + length v1])
   = a + sum_list (map (\<lambda>(x, y). x * y) (zip v1 (drop k v2)))"
  for a :: nat
proof (induction v1 arbitrary: a k)
  case Nil
  show ?case by simp
next
  case (Cons x xs)
  have upt: "[k..<k + length (x # xs)] = k # [Suc k..<Suc k + length xs]"
    using upt_conv_Cons [of k "k + length (x # xs)"] by simp
  have drop: "drop k v2 = v2 ! k # drop (Suc k) v2"
    using Cons.prems by (simp add: Cons_nth_drop_Suc)
  have "foldl (\<lambda>sum (val, i). sum + val * (v2 ! i)) (a + x * v2 ! k)
          (zip xs [Suc k..<Suc k + length xs])
        = a + x * v2 ! k + sum_list (map (\<lambda>(x, y). x * y) (zip xs (drop (Suc k) v2)))"
    using Cons.prems by (intro Cons.IH) simp
  then show ?case
    by (simp only: upt drop zip_Cons_Cons foldl_Cons list.map sum_list.Cons prod.case)
qed

lemma dotProduct_map:
  "dotProduct (map f ws) (map g ws) = sum_list (map (\<lambda>w. f w * g w) ws)"
proof -
  have "dotProduct (map f ws) (map g ws)
        = sum_list (map (\<lambda>(x, y). x * y) (zip (map f ws) (map g ws)))"
    unfolding dotProduct_def using dotProduct_acc [of 0 "map f ws" "map g ws" 0] by simp
  also have "zip (map f ws) (map g ws) = map (\<lambda>w. (f w, g w)) ws"
    by (induction ws) simp_all
  finally show ?thesis
    by (simp add: o_def)
qed

lemma dotProduct_set:
  "distinct ws \<Longrightarrow> dotProduct (map f ws) (map g ws) = (\<Sum>w \<in> set ws. f w * g w)"
  by (simp add: dotProduct_map sum_list_distinct_conv_sum_set)

lemma sumSquares_set:
  "distinct ws \<Longrightarrow> sumSquares (map f ws) = (\<Sum>w \<in> set ws. f w * f w)"
  by (simp add: sumSquares_sum_list o_def sum_list_distinct_conv_sum_set)




lemma sumSquares_ge:
  assumes "x \<in> set v"
  shows "x * x \<le> sumSquares v"
proof -
  have "x * x \<in> set (map (\<lambda>val. val * val) v)"
    using assms by auto
  then show ?thesis
    unfolding sumSquares_sum_list by (intro member_le_sum_list) simp_all
qed

lemma magnitude_ge_1:
  assumes "w \<in> set ws" "1 \<le> f w"
  shows "1 \<le> magnitude (map f ws)"
proof -
  have "f w * f w \<le> sumSquares (map f ws)"
    using assms(1) by (intro sumSquares_ge) simp
  moreover have "1 \<le> f w * f w"
    using assms(2) by (simp add: Suc_le_eq)
  ultimately have "1 \<le> real (sumSquares (map f ws))"
    by linarith
  then have "1 \<le> sqrt (real (sumSquares (map f ws)))"
    by simp
  then show ?thesis
    unfolding magnitude_def by (rule roundDouble_ge_1)
qed

lemma wordCount_hd: "1 \<le> wordCount str (hd (splitWhitespace (toLowerCase str)))"
proof -
  obtain w ws where "splitWhitespace (toLowerCase str) = w # ws"
    using splitWhitespace_not_Nil [of "toLowerCase str"] by (cases "splitWhitespace (toLowerCase str)") auto
  then show ?thesis
    by (simp add: wordCount_def)
qed

lemma hd_in_allWords:
  "hd (splitWhitespace (toLowerCase str1)) \<in> set (allWords str1 str2)"
  "hd (splitWhitespace (toLowerCase str2)) \<in> set (allWords str1 str2)"
  using splitWhitespace_not_Nil by (simp_all add: set_allWords)

text \<open>
  Claim C9.  For every pair of strings, each of the two frequency vectors has magnitude
  at least 1: splitting a string on white space gives at least one word (the empty
  word for the empty string), and each vector counts the words of its own string.  So
  the branch of the zero-magnitude guard is never taken, and the quotient is by a
  nonzero value: the product of the magnitudes, rounded, is at least 1 as well.
\<close>

theorem magnitudes_positive:
  "1 \<le> magnitude (vector1 str1 str2) \<and>
   1 \<le> magnitude (vector2 str1 str2) \<and>
   magnitude (vector1 str1 str2) * magnitude (vector2 str1 str2) \<noteq> 0 \<and>
   roundDouble (magnitude (vector1 str1 str2) * magnitude (vector2 str1 str2)) \<noteq> 0 \<and>
   cosineSimilarity str1 str2
     = roundDouble (real (dotProduct (vector1 str1 str2) (vector2 str1 str2))
         / roundDouble (magnitude (vector1 str1 str2) * magnitude (vector2 str1 str2))) \<and>
   splitWhitespace (toLowerCase str1) \<noteq> [] \<and>
   splitWhitespace [] = [[]] \<and>
   length (vector2 str1 str2) = length (vector1 str1 str2)"
proof -
  have m1: "1 \<le> magnitude (vector1 str1 str2)"
    unfolding vector1_wordCount
    using magnitude_ge_1 [of "hd (splitWhitespace (toLowerCase str1))" "allWords str1 str2"
        "wordCount str1"] hd_in_allWords(1) [of str1 str2] wordCount_hd [of str1]
    by simp
  have m2: "1 \<le> magnitude (vector2 str1 str2)"
    unfolding vector2_wordCount
    using magnitude_ge_1 [of "hd (splitWhitespace (toLowerCase str2))" "allWords str1 str2"
        "wordCount str2"] hd_in_allWords(2) [of str2 str1] wordCount_hd [of str2]
    by simp
  have "1 * 1 \<le> magnitude (vector1 str1 str2) * magnitude (vector2 str1 str2)"
    using m1 m2 by (intro mult_mono) simp_all
  then have "1 \<le> roundDouble (magnitude (vector1 str1 str2) * magnitude (vector2 str1 str2))"
    by (intro roundDouble_ge_1) simp
  then have prod: "roundDouble (magnitude (vector1 str1 str2) * magnitude (vector2 str1 str2)) \<noteq> 0"
    by simp
  have "splitWhitespace [] = [[]]"
    by (subst splitWhitespace.simps) simp
  then show ?thesis
    using m1 m2 prod
    by (simp add: cosineSimilarity_def Let_def splitWhitespace_not_Nil length_vector2)
qed

section \<open>Scoring of the sentence records and the fuzzy pass\<close>

lemma toLowerChar_idem: "toLowerChar (toLowerChar c) = toLowerChar c"
proof -
  have lt: "(of_char c :: nat) < 256"
    by simp
  show ?thesis
  proof (cases "(65 \<le> (of_char c :: nat) \<and> (of_char c :: nat) \<le> 90)
      \<or> (192 \<le> (of_char c :: nat) \<and> (of_char c :: nat) \<le> 222 \<and> (of_char c :: nat) \<noteq> 215)")
    case True
    then have low: "toLowerChar c = char_of ((of_char c :: nat) + 32)"
      by (simp add: toLowerChar_def Let_def)
    have "(of_char (char_of ((of_char c :: nat) + 32)) :: nat) = of_char c + 32"
      using True by auto
    then have "toLowerChar (char_of ((of_char c :: nat) + 32)) = char_of ((of_char c :: nat) + 32)"
      using True by (auto simp: toLowerChar_def Let_def)
    then show ?thesis
      by (simp add: low)
  next
    case False
    then have "toLowerChar c = c"
      by (auto simp: toLowerChar_def Let_def)
    then show ?thesis by simp
  qed
qed

lemma toLowerCase_idem: "toLowerCase (toLowerCase s) = toLowerCase s"
  by (simp add: toLowerCase_def toLowerChar_idem)

lemma set_trim: "set (trim s) \<subseteq> set s"
proof -
  have "set (dropWhile isWhitespace (rev (dropWhile isWhitespace s)))
        \<subseteq> set (rev (dropWhile isWhitespace s))"
    by (auto dest: set_dropWhileD)
  also have "\<dots> \<subseteq> set s"
    by (auto dest: set_dropWhileD)
  finally show ?thesis
    by (simp add: trim_def)
qed

lemma toLowerCase_trim: "toLowerCase (trim (toLowerCase s)) = trim (toLowerCase s)"
proof -
  have "toLowerChar c = c" if "c \<in> set (trim (toLowerCase s))" for c
  proof -
    from that have "c \<in> set (toLowerCase s)"
      using set_trim by blast
    then show ?thesis
      by (auto simp: toLowerCase_def toLowerChar_idem)
  qed
  then show ?thesis
    unfolding toLowerCase_def [of "trim (toLowerCase s)"] by (intro map_idI)
qed

lemma length_filter_count_list: "length (filter (\<lambda>v. v = w) xs) = count_list xs w"
  by (induction xs) simp_all

lemma wordCount_count_list:
  "wordCount str w = count_list (splitWhitespace (toLowerCase str)) w"
  by (simp add: wordCount_def length_filter_count_list)

lemma cosineSimilarity_spec:
  "cosineSimilarity str1 str2 = specCosine (toLowerCase str1) (toLowerCase str2)"
proof -
  let ?W = "allWords str1 str2"
  let ?V = "set (splitWhitespace (toLowerCase str1)) \<union> set (splitWhitespace (toLowerCase str2))"
  have d: "distinct ?W"
    by (simp add: allWords_def distinct_newSet)
  have dot: "dotProduct (vector1 str1 str2) (vector2 str1 str2)
             = (\<Sum>w \<in> ?V. count_list (splitWhitespace (toLowerCase str1)) w
                           * count_list (splitWhitespace (toLowerCase str2)) w)"
    by (simp add: vector1_wordCount vector2_wordCount dotProduct_set [OF d] set_allWords
        wordCount_count_list)
  have s1: "sumSquares (vector1 str1 str2)
            = (\<Sum>w \<in> ?V. count_list (splitWhitespace (toLowerCase str1)) w
                          * count_list (splitWhitespace (toLowerCase str1)) w)"
    by (simp add: vector1_wordCount sumSquares_set [OF d] set_allWords wordCount_count_list)
  have s2: "sumSquares (vector2 str1 str2)
            = (\<Sum>w \<in> ?V. count_list (splitWhitespace (toLowerCase str2)) w
                          * count_list (splitWhitespace (toLowerCase str2)) w)"
    by (simp add: vector2_wordCount sumSquares_set [OF d] set_allWords wordCount_count_list)
  show ?thesis
    by (simp only: cosineSimilarity_def specCosine_def Let_def magnitude_def dot s1 s2)
qed

lemma specCosine_rounded: "\<exists>y. specCosine s k = roundDouble y"
proof -
  have "(0::real) = roundDouble 0"
    by (simp add: roundDouble_def)
  then show ?thesis
    unfolding specCosine_def Let_def by (metis (full_types))
qed

lemma similarity_test:
  "(roundDouble (3 / 10) < specCosine s k) = (3 / 10 < specCosine s k)"
proof -
  obtain y where "specCosine s k = roundDouble y"
    using specCosine_rounded by blast
  then show ?thesis
    by (simp only: above_threshold)
qed

lemma keywordStep_spec:
  assumes "toLowerCase ns = ns"
  shows "keywordStep ns (s, c) k =
           (if sublist (toLowerCase k) ns \<or> 3 / 10 < specCosine ns (toLowerCase k)
            then (roundDouble (s + contribution ns k), Suc c)
            else (s, c))"
  by (simp add: keywordStep_def Let_def includesStr_sublist cosineSimilarity_spec assms
      toLowerCase_idem similarity_test contribution_def)

lemma keywordStep_fold:
  assumes "toLowerCase ns = ns"
  shows "foldl (keywordStep ns) (s, c) kws
         = (foldl (\<lambda>sum x. roundDouble (sum + x)) s
              (map (contribution ns) (matchedKeywords ns kws)),
            c + length (matchedKeywords ns kws))"
proof (induction kws arbitrary: s c)
  case Nil
  show ?case by (simp add: matchedKeywords_def)
next
  case (Cons k kws)
  show ?case
  proof (cases "sublist (toLowerCase k) ns \<or> 3 / 10 < specCosine ns (toLowerCase k)")
    case True
    then have "foldl (keywordStep ns) (s, c) (k # kws)
               = foldl (keywordStep ns) (roundDouble (s + contribution ns k), Suc c) kws"
      by (simp only: foldl_Cons keywordStep_spec [OF assms] if_True)
    moreover have "matchedKeywords ns (k # kws) = k # matchedKeywords ns kws"
      using True by (simp add: matchedKeywords_def)
    ultimately show ?thesis
      by (simp add: Cons)
  next
    case False
    then have "foldl (keywordStep ns) (s, c) (k # kws) = foldl (keywordStep ns) (s, c) kws"
      by (simp only: foldl_Cons keywordStep_spec [OF assms] if_False)
    moreover have "matchedKeywords ns (k # kws) = matchedKeywords ns kws"
      using False by (simp add: matchedKeywords_def)
    ultimately show ?thesis
      by (simp add: Cons)
  qed
qed

text \<open>
  Claim C2.  In the second phase of \<open>predictEmojisForSentence\<close>, which runs
  \<open>recordStep\<close> over every record from the state the per-word phase left, with the
  normalized sentence \<open>ns\<close> (the sentence lowercased and trimmed): each keyword that
  occurs in the normalized sentence contributes 80 and counts as one matched keyword;
  each other keyword whose bag-of-words cosine similarity with the normalized sentence
  exceeds 0.3 contributes the similarity times 60 and counts as one; and a record whose
  symbol is not yet claimed and that has a matched keyword is claimed with the sum of
  the contributions divided by the number of matched keywords.  A record whose symbol
  is already claimed, or without a matched keyword, changes nothing.  The similarity is
  \<open>specCosine\<close>, the cosine of the two vectors of word counts over the set of words of
  both strings, and the threshold is the number \<open>3 / 10\<close>; products, sums and the
  quotient are those of doubles.
\<close>

theorem phase2_scoring:
  fixes sentence :: string
  defines "ns \<equiv> trim (toLowerCase sentence)"
  shows
  "foldl (keywordStep ns) (0, 0) kws
     = (contributionSum ns kws, length (matchedKeywords ns kws)) \<and>
   (EmojiData.emoji data \<notin> seenEmojis \<longrightarrow>
      recordStep ns (matches, seenEmojis) data =
        (if 0 < length (matchedKeywords ns (keywords' data))
         then (matches @ [\<lparr>emoji = EmojiData.emoji data,
                           score = roundDouble (contributionSum ns (keywords' data)
                                     / real (length (matchedKeywords ns (keywords' data)))),
                           matchType = Semantic\<rparr>],
               insert (EmojiData.emoji data) seenEmojis)
         else (matches, seenEmojis))) \<and>
   (EmojiData.emoji data \<in> seenEmojis \<longrightarrow>
      recordStep ns (matches, seenEmojis) data = (matches, seenEmojis)) \<and>
   (\<exists>st1. forEachM (wordStep idx) ([], {}) (splitWhitespace ns) = Some st1 \<and>
          sentenceMatches db idx sentence = Some (fst (foldl (recordStep ns) st1 db)))"
proof -
  have lower: "toLowerCase ns = ns"
    unfolding ns_def by (rule toLowerCase_trim)
  have fold: "foldl (keywordStep ns) (0, 0) kws
              = (contributionSum ns kws, length (matchedKeywords ns kws))" for kws
    using keywordStep_fold [OF lower, of 0 0 kws] by (simp add: contributionSum_def)
  obtain st1 where st1: "forEachM (wordStep idx) ([], {}) (splitWhitespace ns) = Some st1"
    using forEachM_total [of "wordStep idx"] wordStep_total by blast
  then have "sentenceMatches db idx sentence = Some (fst (foldl (recordStep ns) st1 db))"
    by (simp add: sentenceMatches_def Let_def ns_def)
  then show ?thesis
    using st1 by (simp add: fold recordStep_def)
qed

text \<open>
  A query where the rounding decides.  For the sentence \<open>x x y z\<close> and the keyword with
  one \<open>x\<close>, seven \<open>y\<close> and ten \<open>w\<close> the exact cosine is \<open>9 / (sqrt 6 * sqrt 150) = 3 / 10\<close>,
  which does not exceed 0.3; the doubles of the code give \<open>0.30000000000000004\<close>, which
  does.
\<close>

lemma powr_values:
  "(2::real) powr (- 51) = 1 / 2251799813685248"
  "(2::real) powr (- 49) = 1 / 562949953421312"
  "(2::real) powr (- 48) = 1 / 281474976710656"
  "(2::real) powr (- 46) = 1 / 70368744177664"
proof -
  have "(2::real) powr (- 51) = 1 / 2 powr 51" "(2::real) powr (- 49) = 1 / 2 powr 49"
    "(2::real) powr (- 48) = 1 / 2 powr 48" "(2::real) powr (- 46) = 1 / 2 powr 46"
    by (simp_all add: powr_minus inverse_eq_divide)
  then show "(2::real) powr (- 51) = 1 / 2251799813685248"
    "(2::real) powr (- 49) = 1 / 562949953421312"
    "(2::real) powr (- 48) = 1 / 281474976710656"
    "(2::real) powr (- 46) = 1 / 70368744177664"
    by simp_all
qed

lemma sqrt_between:
  assumes "0 \<le> a" "a * a < x" "x < b * b" "0 \<le> b"
  shows "a < sqrt x" "sqrt x < b"
proof -
  show "a < sqrt x"
    using assms(1,2) by (intro real_less_rsqrt) (simp add: power2_eq_square)
  have "0 \<le> x"
    using assms(1,2) mult_nonneg_nonneg [of a a] by linarith
  then show "sqrt x < b"
    using assms(3,4) by (intro real_less_lsqrt) (simp_all add: power2_eq_square)
qed

lemma roundDouble_sqrt_6: "roundDouble (sqrt 6) = 5515760546423086 / 2251799813685248"
proof -
  have "(of_int 5515760546423086 - 1 / 2) * 2 powr of_int (1 - 52) < sqrt 6"
    by (rule sqrt_between(1) [where b = 3]) (simp_all add: powr_values)
  moreover have "sqrt 6 < (of_int 5515760546423086 + 1 / 2) * 2 powr of_int (1 - 52)"
    by (rule sqrt_between(2) [where a = 0]) (simp_all add: powr_values)
  ultimately have "roundDouble (sqrt 6) = of_int 5515760546423086 * 2 powr of_int (1 - 52)"
    by (intro roundDouble_eqI) simp_all
  then show ?thesis
    by (simp add: powr_values)
qed

lemma roundDouble_sqrt_150: "roundDouble (sqrt 150) = 6894700683028858 / 562949953421312"
proof -
  have "(of_int 6894700683028858 - 1 / 2) * 2 powr of_int (3 - 52) < sqrt 150"
    by (rule sqrt_between(1) [where b = 13]) (simp_all add: powr_values)
  moreover have "sqrt 150 < (of_int 6894700683028858 + 1 / 2) * 2 powr of_int (3 - 52)"
    by (rule sqrt_between(2) [where a = 0]) (simp_all add: powr_values)
  ultimately have "roundDouble (sqrt 150) = of_int 6894700683028858 * 2 powr of_int (3 - 52)"
    by (intro roundDouble_eqI) simp_all
  then show ?thesis
    by (simp add: powr_values)
qed

lemma roundDouble_product:
  "roundDouble (5515760546423086 / 2251799813685248 * (6894700683028858 / 562949953421312))
   = 8444249301319679 / 281474976710656"
proof -
  have "roundDouble (5515760546423086 / 2251799813685248 * (6894700683028858 / 562949953421312))
        = of_int 8444249301319679 * 2 powr of_int (4 - 52)"
    by (rule roundDouble_eqI) (simp_all add: powr_values)
  then show ?thesis
    by (simp add: powr_values)
qed

lemma roundDouble_quotient:
  "roundDouble (9 / (8444249301319679 / 281474976710656))
   = 5404319552844596 / 18014398509481984"
proof -
  have "roundDouble (9 / (8444249301319679 / 281474976710656))
        = of_int 5404319552844596 * 2 powr of_int (- 2 - 52)"
    by (rule roundDouble_eqI) (simp_all add: powr_m54)
  then show ?thesis
    by (simp add: powr_m54)
qed

lemma roundDouble_times_60:
  "roundDouble (5404319552844596 / 18014398509481984 * 60)
   = 5066549580791809 / 281474976710656"
proof -
  have "roundDouble (5404319552844596 / 18014398509481984 * 60)
        = of_int 5066549580791809 * 2 powr of_int (4 - 52)"
    by (rule roundDouble_eqI) (simp_all add: powr_values)
  then show ?thesis
    by (simp add: powr_values)
qed

lemma roundDouble_sum_98:
  "roundDouble (80 + 5066549580791809 / 281474976710656) = 98"
proof -
  have "roundDouble (80 + 5066549580791809 / 281474976710656)
        = of_int 6896136929411072 * 2 powr of_int (6 - 52)"
    by (rule roundDouble_eqI) (simp_all add: powr_values)
  then show ?thesis
    by (simp add: powr_values)
qed

lemma cosineSimilarity_rounded_up:
  "cosineSimilarity ''x x y z'' ''x y y y y y y y w w w w w w w w w w''
   = 5404319552844596 / 18014398509481984"
proof -
  let ?s = "''x x y z''" and ?k = "''x y y y y y y y w w w w w w w w w w''"
  have v: "dotProduct (vector1 ?s ?k) (vector2 ?s ?k) = 9"
    "sumSquares (vector1 ?s ?k) = 6" "sumSquares (vector2 ?s ?k) = 150"
    by code_simp+
  have m1: "magnitude (vector1 ?s ?k) = 5515760546423086 / 2251799813685248"
    unfolding magnitude_def v by (simp only: of_nat_numeral roundDouble_sqrt_6)
  have m2: "magnitude (vector2 ?s ?k) = 6894700683028858 / 562949953421312"
    unfolding magnitude_def v by (simp only: of_nat_numeral roundDouble_sqrt_150)
  have p: "roundDouble (magnitude (vector1 ?s ?k) * magnitude (vector2 ?s ?k))
           = 8444249301319679 / 281474976710656"
    unfolding m1 m2 by (rule roundDouble_product)
  have q: "roundDouble (real (dotProduct (vector1 ?s ?k) (vector2 ?s ?k))
             / roundDouble (magnitude (vector1 ?s ?k) * magnitude (vector2 ?s ?k)))
           = 5404319552844596 / 18014398509481984"
    unfolding p v by (simp only: of_nat_numeral roundDouble_quotient)
  have nz: "\<not> (magnitude (vector1 ?s ?k) = 0 \<or> magnitude (vector2 ?s ?k) = 0)"
    by (simp add: m1 m2)
  show ?thesis
    by (simp only: cosineSimilarity_def Let_def nz q if_False)
qed

theorem phase2_scoring_witness:
  "EmojiData.emoji \<lparr>EmojiData.emoji = ''S'',
       keywords' = [''z'', ''x y y y y y y y w w w w w w w w w w''], category = ''t''\<rparr> \<notin> {} \<and>
   matchedKeywords ''x x y z'' [''z'', ''x y y y y y y y w w w w w w w w w w'']
     = [''z'', ''x y y y y y y y w w w w w w w w w w''] \<and>
   specCosine ''x x y z'' ''x y y y y y y y w w w w w w w w w w''
     = 5404319552844596 / 18014398509481984 \<and>
   contributionSum ''x x y z'' [''z'', ''x y y y y y y y w w w w w w w w w w''] = 98 \<and>
   recordStep (trim (toLowerCase ''x x y z'')) ([], {})
     \<lparr>EmojiData.emoji = ''S'',
      keywords' = [''z'', ''x y y y y y y y w w w w w w w w w w''], category = ''t''\<rparr>
   = ([\<lparr>emoji = ''S'', score = 49, matchType = Semantic\<rparr>], {''S''})"
proof -
  let ?s = "''x x y z''" and ?k = "''x y y y y y y y w w w w w w w w w w''"
  have ns: "trim (toLowerCase ?s) = ?s"
    by code_simp
  have lower: "toLowerCase ?s = ?s" "toLowerCase ?k = ?k" "toLowerCase ''z'' = ''z''"
    by code_simp+
  have inc: "includesStr ?s ''z''" "\<not> includesStr ?s ?k"
    by code_simp+
  have sub: "sublist ''z'' ?s" "\<not> sublist ?k ?s"
    using inc(1) inc(2) unfolding includesStr_sublist by blast+
  have cos: "specCosine ?s ?k = 5404319552844596 / 18014398509481984"
    using cosineSimilarity_spec [of ?s ?k] cosineSimilarity_rounded_up by (simp add: lower)
  have matched: "matchedKeywords ?s [''z'', ?k] = [''z'', ?k]"
    by (simp add: matchedKeywords_def lower sub cos)
  have c: "contribution ?s ''z'' = 80"
    "contribution ?s ?k = 5066549580791809 / 281474976710656"
    unfolding contribution_def lower cos using sub
    by (simp_all only: if_True if_False roundDouble_times_60)
  have r80: "roundDouble 80 = 80" and r49: "roundDouble 49 = 49"
    using roundDouble_of_int [of 80] roundDouble_of_int [of 49] by simp_all
  have total: "contributionSum ?s [''z'', ?k] = 98"
    by (simp only: contributionSum_def matched list.map foldl.simps c add_0 r80
        roundDouble_sum_98)
  show ?thesis
    using phase2_scoring [where sentence = ?s and seenEmojis = "{}" and matches = "[]"
        and data = "\<lparr>EmojiData.emoji = ''S'', keywords' = [''z'', ?k], category = ''t''\<rparr>"]
    by (simp add: ns matched total cos r49)
qed

lemma forEachM_pure:
  assumes "\<And>s x. f s x = Some (g s x)"
  shows "forEachM f s xs = Some (foldl g s xs)"
  by (induction xs arbitrary: s) (simp_all add: assms)

lemma fuzzyStep_spec: "fuzzyStep w st entry = Some (fuzzySpecStep w st entry)"
  by (cases entry)
    (simp add: fuzzyStep_def fuzzySpecStep_def levenshteinDistance_lev lev_editDistance
      mult.commute)

lemma claimAll_acc:
  "foldl (claim sc mt)
     (ms @ map (\<lambda>e. \<lparr>emoji = e, score = sc, matchType = mt\<rparr>) acc, seen \<union> set acc) es
   = (ms @ map (\<lambda>e. \<lparr>emoji = e, score = sc, matchType = mt\<rparr>)
             (foldl (\<lambda>acc x. if x \<in> set acc then acc else acc @ [x]) acc
                (filter (\<lambda>e. e \<notin> seen) es)),
      seen \<union> set acc \<union> set es)"
proof (induction es arbitrary: acc)
  case Nil
  show ?case by simp
next
  case (Cons e es)
  show ?case
  proof (cases "e \<in> seen \<or> e \<in> set acc")
    case True
    then have "claim sc mt
        (ms @ map (\<lambda>e. \<lparr>emoji = e, score = sc, matchType = mt\<rparr>) acc, seen \<union> set acc) e
      = (ms @ map (\<lambda>e. \<lparr>emoji = e, score = sc, matchType = mt\<rparr>) acc, seen \<union> set acc)"
      by (auto simp: claim_def)
    moreover have "seen \<union> set acc \<union> set (e # es) = seen \<union> set acc \<union> set es"
      using True by auto
    ultimately show ?thesis
      using True Cons [of acc] by auto
  next
    case False
    then have "claim sc mt
        (ms @ map (\<lambda>e. \<lparr>emoji = e, score = sc, matchType = mt\<rparr>) acc, seen \<union> set acc) e
      = (ms @ map (\<lambda>e. \<lparr>emoji = e, score = sc, matchType = mt\<rparr>) (acc @ [e]),
         seen \<union> set (acc @ [e]))"
      by (auto simp: claim_def)
    moreover have "seen \<union> set (acc @ [e]) \<union> set es = seen \<union> set acc \<union> set (e # es)"
      by auto
    ultimately show ?thesis
      using False Cons [of "acc @ [e]"] by (simp del: map_append set_append)
  qed
qed

lemma claimAll_newSet:
  "claimAll sc mt (ms, seen) es
   = (ms @ map (\<lambda>e. \<lparr>emoji = e, score = sc, matchType = mt\<rparr>)
             (newSet (filter (\<lambda>e. e \<notin> seen) es)),
      seen \<union> set es)"
  using claimAll_acc [of sc mt ms "[]" seen es] by (simp add: claimAll_def newSet_def)

text \<open>
  Claim C3.  \<open>levenshteinDistance\<close> returns the edit distance of its arguments, for all
  pairs of strings.  In \<open>predictEmojisForWord\<close> the fuzzy pass runs only if fewer than
  \<open>maxResults\<close> candidates exist after the exact and prefix passes; it then walks the
  index and, for every keyword whose length differs from that of the normalized word
  by at most 2 and whose edit distance \<open>d\<close> from it is at most 2, gives the score
  \<open>80 - 10 * d\<close> to every symbol under the keyword that is not yet claimed.
\<close>

theorem fuzzy_pass:
  "levenshteinDistance str1 str2 = Some (editDistance str1 str2) \<and>
   wordMatches idx word n
     = (let normalizedWord = trim (toLowerCase word);
            st2 = foldl (prefixStep normalizedWord) (exactPass idx normalizedWord ([], {})) idx;
            st3 = (if int (length (fst st2)) < n
                   then foldl (fuzzySpecStep normalizedWord) st2 idx
                   else st2)
        in Some (fst (semanticPass idx normalizedWord n st3))) \<and>
   fuzzyPass idx w n st
     = Some (if int (length (fst st)) < n then foldl (fuzzySpecStep w) st idx else st) \<and>
   claimAll sc Fuzzy (ms, seen) es
     = (ms @ map (\<lambda>e. \<lparr>emoji = e, score = sc, matchType = Fuzzy\<rparr>)
               (newSet (filter (\<lambda>e. e \<notin> seen) es)),
        seen \<union> set es)"
proof -
  have pass: "fuzzyPass idx w n st
      = Some (if int (length (fst st)) < n then foldl (fuzzySpecStep w) st idx else st)"
    for w st
    using forEachM_pure [of "fuzzyStep w" "fuzzySpecStep w" st idx] fuzzyStep_spec [of w]
    by (simp add: fuzzyPass_def)
  show ?thesis
    by (simp add: pass wordMatches_def Let_def levenshteinDistance_lev lev_editDistance
        claimAll_newSet)
qed

theorem fuzzy_pass_witness:
  "levenshteinDistance ''hapy'' ''happy'' = Some 1 \<and>
   editDistance ''hapy'' ''happy'' = 1 \<and>
   fuzzyPass [(''happy'', [''H'']), (''hop'', [''R'']), (''sad'', [''S''])] ''hapy'' 5 ([], {})
     = Some ([\<lparr>emoji = ''H'', score = 70, matchType = Fuzzy\<rparr>,
              \<lparr>emoji = ''R'', score = 60, matchType = Fuzzy\<rparr>], {''H'', ''R''}) \<and>
   foldl (fuzzySpecStep ''hapy'') ([], {})
       [(''happy'', [''H'']), (''hop'', [''R'']), (''sad'', [''S''])]
     = ([\<lparr>emoji = ''H'', score = 70, matchType = Fuzzy\<rparr>,
         \<lparr>emoji = ''R'', score = 60, matchType = Fuzzy\<rparr>], {''H'', ''R''})"
proof -
  have l: "levenshteinDistance ''hapy'' ''happy'' = Some 1"
    by code_simp
  have f: "fuzzyPass [(''happy'', [''H'']), (''hop'', [''R'']), (''sad'', [''S''])] ''hapy'' 5
             ([], {})
           = Some ([\<lparr>emoji = ''H'', score = 70, matchType = Fuzzy\<rparr>,
                    \<lparr>emoji = ''R'', score = 60, matchType = Fuzzy\<rparr>], {''H'', ''R''})"
    by code_simp
  show ?thesis
    using fuzzy_pass [where ?str1.0 = "''hapy''" and ?str2.0 = "''happy''" and w = "''hapy''"
        and idx = "[(''happy'', [''H'']), (''hop'', [''R'']), (''sad'', [''S''])]" and n = 5
        and st = "([], {})"]
      l f
    by simp
qed

end
